theory Spec2Isabelle
  imports Main "HOL-Library.Sublist"
begin

section \<open>Python string operations used by WeekDataProcessor\<close>

text \<open>
  Strings are lists of characters. The model covers ASCII text: \<open>upper\<close> and
  \<open>strip\<close> below treat the ASCII letters and the ASCII whitespace characters as
  Python does and leave every other character alone.
\<close>

text \<open>\<open>sub in s\<close> for strings: \<open>sub\<close> occurs as a contiguous substring of \<open>s\<close>.\<close>

fun contains :: "string \<Rightarrow> string \<Rightarrow> bool" where
  "contains sub [] = (sub = [])"
| "contains sub (c # cs) = (prefix sub (c # cs) \<or> contains sub cs)"

text \<open>
  \<open>s.replace(old, new)\<close>: every occurrence of \<open>old\<close>, found from left to right and
  without overlap, is replaced. The helper \<open>replace_from\<close> carries the number of
  characters of the current occurrence that are still to be skipped. For the empty
  \<open>old\<close> Python inserts \<open>new\<close> before every character and at the end.
\<close>

fun replace_from :: "nat \<Rightarrow> string \<Rightarrow> string \<Rightarrow> string \<Rightarrow> string" where
  "replace_from k old new [] = []"
| "replace_from (Suc k) old new (c # cs) = replace_from k old new cs"
| "replace_from 0 old new (c # cs) =
     (if prefix old (c # cs) then new @ replace_from (length old - 1) old new cs
      else c # replace_from 0 old new cs)"

definition replace :: "string \<Rightarrow> string \<Rightarrow> string \<Rightarrow> string" where
  "replace old new s =
     (if old = [] then new @ concat (map (\<lambda>c. c # new) s)
      else replace_from 0 old new s)"

text \<open>The characters \<open>str.strip()\<close> removes, among the ASCII ones.\<close>

definition is_space :: "char \<Rightarrow> bool" where
  "is_space c = (let n = (of_char c :: nat) in (9 \<le> n \<and> n \<le> 13) \<or> (28 \<le> n \<and> n \<le> 32))"

definition strip :: "string \<Rightarrow> string" where
  "strip s = rev (dropWhile is_space (rev (dropWhile is_space s)))"

text \<open>\<open>str.upper()\<close> on the ASCII letters.\<close>

definition upper_char :: "char \<Rightarrow> char" where
  "upper_char c =
     (let n = (of_char c :: nat) in if 97 \<le> n \<and> n \<le> 122 then char_of (n - 32) else c)"

definition upper :: "string \<Rightarrow> string" where
  "upper s = map upper_char s"

text \<open>\<open>s.split(sep)\<close> for a one-character separator, and \<open>sep.join(parts)\<close>.\<close>

fun split_on :: "char \<Rightarrow> string \<Rightarrow> string list" where
  "split_on sep [] = [[]]"
| "split_on sep (c # cs) =
     (if c = sep then [] # split_on sep cs
      else (case split_on sep cs of l # ls \<Rightarrow> (c # l) # ls | [] \<Rightarrow> [[c]]))"

fun join :: "string \<Rightarrow> string list \<Rightarrow> string" where
  "join sep [] = []"
| "join sep [l] = l"
| "join sep (l # ls) = l @ sep @ join sep ls"

section \<open>Formatting of the activity content\<close>

definition school_marker :: string where
  "school_marker = ''Berufsschule''"

definition bullet :: string where
  "bullet = ''-   ''"

definition newline :: char where
  "newline = CHR 0x0A"

text \<open>
  \<open>format_content\<close>:
  \<^verbatim>\<open>content = content.replace('Berufsschule', '').strip()\<close>
  \<^verbatim>\<open>return f"-   {content.replace(',', '').replace('- ', '').replace('\n', '\n-   ')}" if content else ''\<close>
\<close>

definition format_content :: "string \<Rightarrow> string" where
  "format_content content =
     (let content = strip (replace school_marker [] content)
      in if content \<noteq> []
         then bullet @ replace [newline] (newline # bullet)
                (replace ''- '' [] (replace '','' [] content))
         else [])"

section \<open>The proleptic Gregorian calendar of Python's datetime\<close>

text \<open>
  The source calls \<^verbatim>\<open>datetime.strptime\<close>, \<^verbatim>\<open>isocalendar\<close>, \<^verbatim>\<open>timedelta\<close> and
  \<^verbatim>\<open>strftime\<close>. They are modelled after CPython's \<^verbatim>\<open>datetime\<close> and \<^verbatim>\<open>_strptime\<close>
  modules, with Python's unbounded integers as \<open>int\<close>. A date is the triple
  (year, month, day); the time of day is midnight throughout, since the format has no
  time field and only whole days are added.
\<close>

type_synonym date = "int \<times> int \<times> int"

definition is_leap :: "int \<Rightarrow> bool" where
  "is_leap y = (y mod 4 = 0 \<and> (y mod 100 \<noteq> 0 \<or> y mod 400 = 0))"

definition days_before_year :: "int \<Rightarrow> int" where
  "days_before_year yr = (let y = yr - 1 in y * 365 + y div 4 - y div 100 + y div 400)"

definition DAYS_IN_MONTH :: "int list" where
  "DAYS_IN_MONTH = [-1, 31, 28, 31, 30, 31, 30, 31, 31, 30, 31, 30, 31]"

definition DAYS_BEFORE_MONTH :: "int list" where
  "DAYS_BEFORE_MONTH = [-1, 0, 31, 59, 90, 120, 151, 181, 212, 243, 273, 304, 334]"

definition days_in_month :: "int \<Rightarrow> int \<Rightarrow> int" where
  "days_in_month y m = (if m = 2 \<and> is_leap y then 29 else DAYS_IN_MONTH ! nat m)"

definition days_before_month :: "int \<Rightarrow> int \<Rightarrow> int" where
  "days_before_month y m = DAYS_BEFORE_MONTH ! nat m + (if m > 2 \<and> is_leap y then 1 else 0)"

definition ymd2ord :: "date \<Rightarrow> int" where
  "ymd2ord dt = (case dt of (y, m, d) \<Rightarrow> days_before_year y + days_before_month y m + d)"

definition MINYEAR :: int where "MINYEAR = 1"
definition MAXYEAR :: int where "MAXYEAR = 9999"
definition MAXORDINAL :: int where "MAXORDINAL = 3652059"

text \<open>The check of the \<^verbatim>\<open>datetime\<close> constructor; a date that fails it raises ValueError.\<close>

definition check_date_fields :: "date \<Rightarrow> bool" where
  "check_date_fields dt =
     (case dt of (y, m, d) \<Rightarrow>
        MINYEAR \<le> y \<and> y \<le> MAXYEAR \<and> 1 \<le> m \<and> m \<le> 12 \<and> 1 \<le> d \<and> d \<le> days_in_month y m)"

definition DI400Y :: int where "DI400Y = 146097"
definition DI100Y :: int where "DI100Y = 36524"
definition DI4Y :: int where "DI4Y = 1461"

text \<open>\<^verbatim>\<open>_ord2ymd\<close>: the date of a day number, day 1 being 01.01.0001.\<close>

definition ord2ymd :: "int \<Rightarrow> date" where
  "ord2ymd n0 =
     (let n = n0 - 1;
          n400 = n div DI400Y; n = n mod DI400Y;
          n100 = n div DI100Y; n = n mod DI100Y;
          n4 = n div DI4Y; n = n mod DI4Y;
          n1 = n div 365; n = n mod 365;
          yr = n400 * 400 + 1 + n100 * 100 + n4 * 4 + n1
      in if n1 = 4 \<or> n100 = 4 then (yr - 1, 12, 31)
         else
           let leapyear = (n1 = 3 \<and> (n4 \<noteq> 24 \<or> n100 = 3));
               mo = (n + 50) div 32;
               preceding = DAYS_BEFORE_MONTH ! nat mo + (if mo > 2 \<and> leapyear then 1 else 0)
           in if preceding > n
              then let mo = mo - 1;
                       preceding = preceding
                         - (DAYS_IN_MONTH ! nat mo + (if mo = 2 \<and> leapyear then 1 else 0))
                   in (yr, mo, n - preceding + 1)
              else (yr, mo, n - preceding + 1))"

text \<open>\<^verbatim>\<open>_isoweek1monday\<close> and the week number of \<^verbatim>\<open>isocalendar()\<close>.\<close>

definition isoweek1monday :: "int \<Rightarrow> int" where
  "isoweek1monday yr =
     (let firstday = ymd2ord (yr, 1, 1);
          firstweekday = (firstday + 6) mod 7;
          week1monday = firstday - firstweekday
      in if firstweekday > 3 then week1monday + 7 else week1monday)"

definition iso_week :: "date \<Rightarrow> int" where
  "iso_week dt =
     (case dt of (yr, m, d) \<Rightarrow>
        let today = ymd2ord (yr, m, d);
            week = (today - isoweek1monday yr) div 7
        in (if week < 0 then (today - isoweek1monday (yr - 1)) div 7
            else if week \<ge> 52 \<and> today \<ge> isoweek1monday (yr + 1) then 0
            else week) + 1)"

subsection \<open>Parsing and printing in the format \<^verbatim>\<open>%d.%m.%Y\<close>\<close>

definition is_digit :: "char \<Rightarrow> bool" where
  "is_digit c = (let n = (of_char c :: nat) in 48 \<le> n \<and> n \<le> 57)"

definition digit_val :: "char \<Rightarrow> int" where
  "digit_val c = int (of_char c) - 48"

definition digit_in :: "int \<Rightarrow> int \<Rightarrow> char \<Rightarrow> bool" where
  "digit_in lo hi c = (is_digit c \<and> lo \<le> digit_val c \<and> digit_val c \<le> hi)"

text \<open>
  \<^verbatim>\<open>_strptime\<close> turns the format into the regular expression
  \<^verbatim>\<open>(?P<d>3[0-1]|[1-2]\d|0[1-9]|[1-9]| [1-9])\.(?P<m>1[0-2]|0[1-9]|[1-9])\.(?P<Y>\d\d\d\d)\<close>
  and matches it at the start of the string. Each piece below returns every way it can
  match a prefix of its input, in the order in which the backtracking matcher tries the
  alternatives, as pairs of the number read and the rest of the input. \<open>\d\<close> is an
  ASCII digit here.
\<close>

definition two_digits :: "(char \<Rightarrow> bool) \<Rightarrow> (char \<Rightarrow> bool) \<Rightarrow> string \<Rightarrow> (int \<times> string) list" where
  "two_digits P Q s =
     (case s of a # b # r \<Rightarrow> if P a \<and> Q b then [(10 * digit_val a + digit_val b, r)] else []
      | _ \<Rightarrow> [])"

definition one_digit :: "(char \<Rightarrow> bool) \<Rightarrow> string \<Rightarrow> (int \<times> string) list" where
  "one_digit P s = (case s of a # r \<Rightarrow> if P a then [(digit_val a, r)] else [] | _ \<Rightarrow> [])"

definition space_digit :: "(char \<Rightarrow> bool) \<Rightarrow> string \<Rightarrow> (int \<times> string) list" where
  "space_digit P s =
     (case s of a # b # r \<Rightarrow> if a = CHR '' '' \<and> P b then [(digit_val b, r)] else []
      | _ \<Rightarrow> [])"

definition re_d :: "string \<Rightarrow> (int \<times> string) list" where
  "re_d s = two_digits (digit_in 3 3) (digit_in 0 1) s @ two_digits (digit_in 1 2) is_digit s
      @ two_digits (digit_in 0 0) (digit_in 1 9) s @ one_digit (digit_in 1 9) s
      @ space_digit (digit_in 1 9) s"

definition re_m :: "string \<Rightarrow> (int \<times> string) list" where
  "re_m s = two_digits (digit_in 1 1) (digit_in 0 2) s
      @ two_digits (digit_in 0 0) (digit_in 1 9) s @ one_digit (digit_in 1 9) s"

definition re_Y :: "string \<Rightarrow> (int \<times> string) list" where
  "re_Y s =
     (case s of a # b # c # d # r \<Rightarrow>
        if is_digit a \<and> is_digit b \<and> is_digit c \<and> is_digit d
        then [(1000 * digit_val a + 100 * digit_val b + 10 * digit_val c + digit_val d, r)]
        else []
      | _ \<Rightarrow> [])"

definition re_dot :: "string \<Rightarrow> string list" where
  "re_dot s = (case s of a # r \<Rightarrow> if a = CHR ''.'' then [r] else [] | [] \<Rightarrow> [])"

definition date_regex :: "string \<Rightarrow> (date \<times> string) list" where
  "date_regex s =
     List.bind (re_d s) (\<lambda>(d, r1).
     List.bind (re_dot r1) (\<lambda>r2.
     List.bind (re_m r2) (\<lambda>(m, r3).
     List.bind (re_dot r3) (\<lambda>r4.
     List.bind (re_Y r4) (\<lambda>(y, r5). [((y, m, d), r5)])))))"

text \<open>
  \<^verbatim>\<open>datetime.strptime(s, "%d.%m.%Y")\<close>. \<open>None\<close> stands for the ValueError raised when
  the string does not match, when text remains after the first match, or when the
  numbers read are not a date.
\<close>

definition strptime :: "string \<Rightarrow> date option" where
  "strptime s =
     (case date_regex s of
        [] \<Rightarrow> None
      | (dt, rest) # _ \<Rightarrow>
          if rest \<noteq> [] then None
          else if check_date_fields dt then Some dt else None)"

definition digit_char :: "int \<Rightarrow> char" where
  "digit_char n = char_of (48 + nat n)"

text \<open>\<open>str(n)\<close> for an integer, as the f-strings of the placeholder keys print it.\<close>

fun show_nat :: "nat \<Rightarrow> string" where
  "show_nat n = (if n < 10 then [digit_char (int n)]
                 else show_nat (n div 10) @ [digit_char (int (n mod 10))])"

declare show_nat.simps [simp del]

definition show_int :: "int \<Rightarrow> string" where
  "show_int i = (if i < 0 then CHR ''-'' # show_nat (nat (- i)) else show_nat (nat i))"

text \<open>
  \<^verbatim>\<open>strftime("%d.%m.%Y")\<close>. Python hands the format to the \<^verbatim>\<open>strftime\<close> of the C
  library. Day and month are printed with two digits everywhere. The year is printed
  with four digits, padded with zeros, by some libraries and as a plain decimal number
  by others (glibc among them), so that the year 999 is \<^verbatim>\<open>0999\<close> on the former and
  \<^verbatim>\<open>999\<close> on the latter. \<open>padded\<close> says which of the two the platform does; from the
  year 1000 on there is no difference.
\<close>

definition strftime :: "bool \<Rightarrow> date \<Rightarrow> string" where
  "strftime padded dt =
     (case dt of (y, m, d) \<Rightarrow>
        [digit_char (d div 10), digit_char (d mod 10), CHR ''.'',
         digit_char (m div 10), digit_char (m mod 10), CHR ''.'']
        @ (if padded
           then [digit_char (y div 1000), digit_char (y div 100 mod 10),
                 digit_char (y div 10 mod 10), digit_char (y mod 10)]
           else show_nat (nat y)))"

section \<open>WeekDataProcessor\<close>

subsection \<open>Data\<close>

text \<open>
  A row of the input table. \<open>Datum\<close>, \<open>Tag\<close> and \<open>Taetigkeitsbeschreibung\<close> (the
  column of the activity description, whose name has an umlaut in the table) are read by
  subscript and hold strings; \<open>Beschreibung\<close> is read with
  \<^verbatim>\<open>row.get('Beschreibung', '')\<close> and is \<open>None\<close> when the table has no such column.
\<close>

record row =
  Datum :: string
  Tag :: string
  Taetigkeitsbeschreibung :: string
  Beschreibung :: "string option"

text \<open>
  The inner dictionary of a day entry, with its two possible keys; \<open>None\<close> is an absent
  key, so that \<open>empty_data\<close> is the \<^verbatim>\<open>{}\<close> used for a day without entry. A day entry
  \<^verbatim>\<open>{TAG: {"Art": ..., "Inhalt": ...}}\<close> is the pair of its only key and that dictionary.
\<close>

record day_data =
  Art :: "string option"
  Inhalt :: "string option"

type_synonym day_entry = "string \<times> day_data"

text \<open>
  \<^verbatim>\<open>weeks_data\<close> is a dict from the relative week to the list of its entries. A Python
  dict iterates in the order in which its keys were inserted, so it is an association
  list in insertion order, with each key once.
\<close>

type_synonym weeks_data = "(int \<times> day_entry list) list"

datatype error = IndexError | KeyError | ValueError | OverflowError

text \<open>
  What the logger receives: \<^verbatim>\<open>logger.error\<close> with the date that did not parse, and
  \<^verbatim>\<open>logger.warning\<close> with the day and the week of a filled-in entry.
\<close>

datatype log_event = LogError string | LogWarning string int

text \<open>
  What the processor takes from its surroundings. The module \<^verbatim>\<open>src.ConfigManager\<close>
  is not part of the sources at hand. Of the constants the processor reads from it, two
  are parameters: the configured day names and the table from activity descriptions to
  activity types. The third, the message texts, only shapes the text of a warning; the
  log keeps the day and the week instead. \<open>year_padded\<close> is the behaviour of the
  platform's \<^verbatim>\<open>strftime\<close> for the year.
\<close>

record config =
  days :: "string list"
  activitys :: "string \<rightharpoonup> string"
  year_padded :: bool

text \<open>
  The document is known by the calls it receives. A cell is named by a number; the
  document is the list of its cells in the order in which the loops over tables, rows
  and cells reach them. \<open>ProcessWeek\<close> records the call of
  \<^verbatim>\<open>process_week_placeholders\<close> for a week, \<open>ReplaceGeneral\<close> a call of
  \<^verbatim>\<open>replace_general_placeholders(cell, mapping)\<close> and \<open>Replace\<close> a call of
  \<^verbatim>\<open>replace_placeholders(cell, key, value)\<close>.
\<close>

type_synonym cell = nat

datatype call =
    ProcessWeek int
  | ReplaceGeneral cell "(string \<times> string) list"
  | Replace cell string string

text \<open>The attributes of the processor that the methods read and write.\<close>

record processor =
  settings :: "string \<rightharpoonup> string"
  data :: "row list"
  weeks_data :: weeks_data

subsection \<open>Initialisation\<close>

text \<open>
  \<open>get_week\<close> returns the week together with what it logged. A string that does not
  parse is logged and gives -1.
\<close>

definition get_week :: "string \<Rightarrow> int \<times> log_event list" where
  "get_week date_str =
     (case strptime date_str of
        Some dt \<Rightarrow> (iso_week dt, [])
      | None \<Rightarrow> (-1, [LogError date_str]))"

text \<open>\<^verbatim>\<open>activitys.get(activity, activitys.get('NA', 'TAETIGKEIT_UNBEKANNT'))\<close>\<close>

definition get_activity_type :: "config \<Rightarrow> string \<Rightarrow> string" where
  "get_activity_type cfg activity =
     (case activitys cfg activity of
        Some t \<Rightarrow> t
      | None \<Rightarrow> (case activitys cfg ''NA'' of Some t \<Rightarrow> t | None \<Rightarrow> ''TAETIGKEIT_UNBEKANNT''))"

definition row_entry :: "config \<Rightarrow> row \<Rightarrow> day_entry" where
  "row_entry cfg r =
     (upper (Tag r),
      \<lparr>Art = Some (get_activity_type cfg (upper (Taetigkeitsbeschreibung r))),
       Inhalt = Some (case Beschreibung r of Some s \<Rightarrow> s | None \<Rightarrow> [])\<rparr>)"

text \<open>\<^verbatim>\<open>weeks_data.setdefault(relative_week, []).append(row_entry)\<close>\<close>

fun setdefault_append :: "int \<Rightarrow> day_entry \<Rightarrow> weeks_data \<Rightarrow> weeks_data" where
  "setdefault_append k e [] = [(k, [e])]"
| "setdefault_append k e ((k', es) # rest) =
     (if k' = k then (k', es @ [e]) # rest else (k', es) # setdefault_append k e rest)"

text \<open>The first loop of \<open>initialize_weeks_data\<close>, over the rows in table order.\<close>

fun aggregate :: "config \<Rightarrow> int \<Rightarrow> row list \<Rightarrow> weeks_data \<times> log_event list
    \<Rightarrow> weeks_data \<times> log_event list" where
  "aggregate cfg start_week [] st = st"
| "aggregate cfg start_week (r # rs) (wd, lg) =
     (let (current_week, ev) = get_week (Datum r);
          relative_week = current_week - start_week + 1
      in aggregate cfg start_week rs
           (setdefault_append relative_week (row_entry cfg r) wd, lg @ ev))"

text \<open>
  The second loop, for one bucket. Python iterates the set \<^verbatim>\<open>set(days) - existing_days\<close>
  in an order of its own; the model takes the missing days in the order of \<open>days\<close>.
\<close>

definition missing_days :: "config \<Rightarrow> day_entry list \<Rightarrow> string list" where
  "missing_days cfg entries =
     (let existing_days = set (map fst entries)
      in filter (\<lambda>d. d \<notin> existing_days) (remdups (days cfg)))"

text \<open>\<^verbatim>\<open>{day: {"Art": "", "Inhalt": ""}}\<close>\<close>

definition empty_entry :: "string \<Rightarrow> day_entry" where
  "empty_entry d = (d, \<lparr>Art = Some [], Inhalt = Some []\<rparr>)"

definition fill_missing :: "config \<Rightarrow> int \<times> day_entry list
    \<Rightarrow> (int \<times> day_entry list) \<times> log_event list" where
  "fill_missing cfg b =
     (case b of (week, entries) \<Rightarrow>
        let missing = missing_days cfg entries
        in ((week, entries @ map empty_entry missing),
            map (\<lambda>d. LogWarning d week) missing))"

text \<open>
  \<open>initialize_weeks_data\<close>. \<^verbatim>\<open>self.data['Datum'].iloc[0]\<close> raises IndexError on a table
  without rows.
\<close>

definition initialize_weeks_data :: "config \<Rightarrow> row list \<Rightarrow> error + weeks_data \<times> log_event list" where
  "initialize_weeks_data cfg rows =
     (case rows of
        [] \<Rightarrow> Inl IndexError
      | r0 # _ \<Rightarrow>
          let (start_week, ev0) = get_week (Datum r0);
              (wd, lg) = aggregate cfg start_week rows ([], ev0);
              filled = map (fill_missing cfg) wd
          in Inr (map fst filled, lg @ concat (map snd filled)))"

text \<open>\<open>__init__\<close>: the attributes are stored and \<open>weeks_data\<close> is initialised.\<close>

definition new_processor :: "config \<Rightarrow> (string \<rightharpoonup> string) \<Rightarrow> row list
    \<Rightarrow> error + processor \<times> log_event list" where
  "new_processor cfg st rows =
     (case initialize_weeks_data cfg rows of
        Inl e \<Rightarrow> Inl e
      | Inr (wd, lg) \<Rightarrow> Inr (\<lparr>settings = st, data = rows, weeks_data = wd\<rparr>, lg))"

subsection \<open>Substitution\<close>

text \<open>
  \<open>calculate_week_range\<close>. \<^verbatim>\<open>strptime\<close> raises ValueError on a string that does not
  parse; \<^verbatim>\<open>timedelta(weeks=n)\<close> raises OverflowError beyond 999999999 days, and adding
  a \<^verbatim>\<open>timedelta\<close> raises OverflowError when the day number leaves 1 .. MAXORDINAL.
  The first argument is the behaviour of the platform's \<^verbatim>\<open>strftime\<close>.
\<close>

definition add_days :: "int \<Rightarrow> int \<Rightarrow> error + int" where
  "add_days ordinal n =
     (if 0 < ordinal + n \<and> ordinal + n \<le> MAXORDINAL then Inr (ordinal + n) else Inl OverflowError)"

definition calculate_week_range :: "bool \<Rightarrow> string \<Rightarrow> int \<Rightarrow> error + string \<times> string" where
  "calculate_week_range padded start_date week_offset =
     (case strptime start_date of
        None \<Rightarrow> Inl ValueError
      | Some dt \<Rightarrow>
          if \<bar>7 * week_offset\<bar> > 999999999 then Inl OverflowError
          else (case add_days (ymd2ord dt) (7 * week_offset) of
                  Inl e \<Rightarrow> Inl e
                | Inr start \<Rightarrow>
                    (case add_days start 4 of
                       Inl e \<Rightarrow> Inl e
                     | Inr end \<Rightarrow>
                         Inr (strftime padded (ord2ymd start), strftime padded (ord2ymd end)))))"

text \<open>The placeholder \<^verbatim>\<open>f"{{{day}_INHALT{week}}}"\<close> and its siblings.\<close>

definition placeholder :: "string \<Rightarrow> string \<Rightarrow> int \<Rightarrow> string" where
  "placeholder day field week = ''{'' @ day @ ''_'' @ field @ show_int week @ ''}''"

definition get_or_empty :: "string option \<Rightarrow> string" where
  "get_or_empty v = (case v of Some s \<Rightarrow> s | None \<Rightarrow> [])"

definition empty_data :: day_data where
  "empty_data = \<lparr>Art = None, Inhalt = None\<rparr>"

text \<open>
  \<open>replace_placeholders_for_day\<close> writes \<^verbatim>\<open>data['Art']\<close>, so it returns the dictionary
  as it leaves it, next to the calls made on the document. \<^verbatim>\<open>self.settings['default_hours']\<close>
  raises KeyError when the key is absent.
\<close>

definition replace_placeholders_for_day :: "(string \<rightharpoonup> string) \<Rightarrow> cell \<Rightarrow> string \<Rightarrow> int
    \<Rightarrow> day_data \<Rightarrow> error + day_data \<times> call list" where
  "replace_placeholders_for_day st c day week dd =
     (let content = format_content (get_or_empty (Inhalt dd));
          dd = dd\<lparr>Art := Some (if contains school_marker (get_or_empty (Inhalt dd))
                              then ''Berufsschule'' else get_or_empty (Art dd))\<rparr>
      in case st ''default_hours'' of
           None \<Rightarrow> Inl KeyError
         | Some hours \<Rightarrow>
             Inr (dd, [Replace c (placeholder day ''INHALT'' week) content,
                       Replace c (placeholder day ''STUNDEN'' week) hours,
                       Replace c (placeholder day ''ART'' week) (get_or_empty (Art dd))]))"

text \<open>A loop whose body may raise: the first error ends it.\<close>

fun for_each :: "('a \<Rightarrow> 's \<Rightarrow> error + 's) \<Rightarrow> 'a list \<Rightarrow> 's \<Rightarrow> error + 's" where
  "for_each body [] s = Inr s"
| "for_each body (x # xs) s =
     (case body x s of Inl e \<Rightarrow> Inl e | Inr s' \<Rightarrow> for_each body xs s')"

text \<open>
  \<^verbatim>\<open>next((entry.get(day, {}) for entry in entries if day in entry), {})\<close> yields the inner
  dictionary of the first entry for the day: the object itself, not a copy. \<open>find_day\<close>
  is the position of that entry.
\<close>

fun find_day :: "string \<Rightarrow> day_entry list \<Rightarrow> nat option" where
  "find_day day [] = None"
| "find_day day (e # es) =
     (if fst e = day then Some 0 else map_option Suc (find_day day es))"

text \<open>
  The body of the loop over the days, for one cell: the write to \<^verbatim>\<open>data['Art']\<close> lands
  in the entry of the bucket when the day has one, and in a dictionary nobody else holds
  when it has none.
\<close>

definition process_day :: "(string \<rightharpoonup> string) \<Rightarrow> cell \<Rightarrow> int \<Rightarrow> string
    \<Rightarrow> day_entry list \<times> call list \<Rightarrow> error + day_entry list \<times> call list" where
  "process_day st c week day s =
     (case s of (entries, calls) \<Rightarrow>
        (case find_day day entries of
           None \<Rightarrow>
             (case replace_placeholders_for_day st c day week empty_data of
                Inl e \<Rightarrow> Inl e
              | Inr (_, cs) \<Rightarrow> Inr (entries, calls @ cs))
         | Some i \<Rightarrow>
             (case replace_placeholders_for_day st c day week (snd (entries ! i)) of
                Inl e \<Rightarrow> Inl e
              | Inr (dd, cs) \<Rightarrow> Inr (entries[i := (fst (entries ! i), dd)], calls @ cs))))"

definition process_cell :: "config \<Rightarrow> (string \<rightharpoonup> string) \<Rightarrow> int \<Rightarrow> (string \<times> string) list
    \<Rightarrow> cell \<Rightarrow> day_entry list \<times> call list \<Rightarrow> error + day_entry list \<times> call list" where
  "process_cell cfg st week general_placeholders c s =
     (case s of (entries, calls) \<Rightarrow>
        for_each (process_day st c week) (days cfg)
          (entries, calls @ [ReplaceGeneral c general_placeholders]))"

text \<open>
  \<open>process_week_placeholders\<close>. \<^verbatim>\<open>self.data['Datum'][0]\<close> is the date of the first row
  (the table carries the default index).
\<close>

definition process_week_placeholders :: "config \<Rightarrow> (string \<rightharpoonup> string) \<Rightarrow> row list \<Rightarrow> cell list
    \<Rightarrow> int \<Rightarrow> day_entry list \<times> call list \<Rightarrow> error + day_entry list \<times> call list" where
  "process_week_placeholders cfg st rows cells week s =
     (case s of (entries, calls) \<Rightarrow>
        (case rows of
           [] \<Rightarrow> Inl KeyError
         | r0 # _ \<Rightarrow>
             (case calculate_week_range (year_padded cfg) (Datum r0) (week - 1) of
                Inl e \<Rightarrow> Inl e
              | Inr (start_date, end_date) \<Rightarrow>
                  let general_placeholders =
                    [(''{NAME}'', case st ''name'' of Some v \<Rightarrow> v | None \<Rightarrow> ''N/A''),
                     (''{ABJ}'', case st ''year'' of Some v \<Rightarrow> v | None \<Rightarrow> ''N/A''),
                     (''{DATUM_START'' @ show_int week @ ''}'', start_date),
                     (''{DATUM_ENDE'' @ show_int week @ ''}'', end_date)]
                  in for_each (process_cell cfg st week general_placeholders) cells
                       (entries, calls @ [ProcessWeek week]))))"

text \<open>
  \<open>process_all_weeks\<close>: the buckets in the order of the dict. It returns the processor,
  whose \<open>weeks_data\<close> the calls have written to, and the calls in the order made.
\<close>

fun process_weeks :: "config \<Rightarrow> (string \<rightharpoonup> string) \<Rightarrow> row list \<Rightarrow> cell list
    \<Rightarrow> weeks_data \<Rightarrow> call list \<Rightarrow> error + weeks_data \<times> call list" where
  "process_weeks cfg st rows cells [] calls = Inr ([], calls)"
| "process_weeks cfg st rows cells ((week, entries) # rest) calls =
     (case process_week_placeholders cfg st rows cells week (entries, calls) of
        Inl e \<Rightarrow> Inl e
      | Inr (entries', calls') \<Rightarrow>
          (case process_weeks cfg st rows cells rest calls' of
             Inl e \<Rightarrow> Inl e
           | Inr (rest', calls'') \<Rightarrow> Inr ((week, entries') # rest', calls'')))"

definition process_all_weeks :: "config \<Rightarrow> cell list \<Rightarrow> processor \<Rightarrow> error + processor \<times> call list" where
  "process_all_weeks cfg cells p =
     (case process_weeks cfg (settings p) (data p) cells (weeks_data p) [] of
        Inl e \<Rightarrow> Inl e
      | Inr (wd, calls) \<Rightarrow> Inr (p\<lparr>weeks_data := wd\<rparr>, calls))"

text \<open>The weeks for which \<open>process_week_placeholders\<close> was called, in the order of the calls.\<close>

fun visited_weeks :: "call list \<Rightarrow> int list" where
  "visited_weeks [] = []"
| "visited_weeks (ProcessWeek w # cs) = w # visited_weeks cs"
| "visited_weeks (_ # cs) = visited_weeks cs"

section \<open>The content formatter as the specification words it\<close>

text \<open>
  The specification lets the formatter strip commas and leading dash-prefix sequences and
  then bullet every line. \<open>format_content_spec\<close> follows these words: of each line it
  drops the commas and the dash prefixes the line starts with.
\<close>

fun strip_dash_prefix :: "string \<Rightarrow> string" where
  "strip_dash_prefix (c # d # cs) =
     (if c = CHR ''-'' \<and> d = CHR '' '' then strip_dash_prefix cs else c # d # cs)"
| "strip_dash_prefix cs = cs"

definition format_content_spec :: "string \<Rightarrow> string" where
  "format_content_spec content =
     (let content = strip (replace school_marker [] content)
      in if content = [] then []
         else join [newline]
                (map (\<lambda>l. bullet @ strip_dash_prefix (filter (\<lambda>c. c \<noteq> CHR '','') l))
                   (split_on newline content)))"

section \<open>Notions for stating the properties\<close>

text \<open>The relative week the first loop computes for a row, and the week of the first row.\<close>

definition relative_week :: "int \<Rightarrow> row \<Rightarrow> int" where
  "relative_week start_week r = fst (get_week (Datum r)) - start_week + 1"

definition start_week_of :: "row list \<Rightarrow> int" where
  "start_week_of rows = fst (get_week (Datum (hd rows)))"

definition rows_of_week :: "row list \<Rightarrow> int \<Rightarrow> row list" where
  "rows_of_week rows k = filter (\<lambda>r. relative_week (start_week_of rows) r = k) rows"

text \<open>The elements of a list in the order in which each occurs first.\<close>

fun first_occurrences :: "'a list \<Rightarrow> 'a list" where
  "first_occurrences [] = []"
| "first_occurrences (x # xs) = x # removeAll x (first_occurrences xs)"

text \<open>\<^verbatim>\<open>weeks_data.get(k, [])\<close>, and the number of entries of a bucket for a day.\<close>

definition bucket :: "weeks_data \<Rightarrow> int \<Rightarrow> day_entry list" where
  "bucket wd k = (case map_of wd k of Some es \<Rightarrow> es | None \<Rightarrow> [])"

definition day_count :: "string \<Rightarrow> day_entry list \<Rightarrow> nat" where
  "day_count d es = length (filter (\<lambda>e. fst e = d) es)"

text \<open>A bucket after the second loop has filled in its missing days.\<close>

definition fill_entries :: "config \<Rightarrow> day_entry list \<Rightarrow> day_entry list" where
  "fill_entries cfg es = es @ map empty_entry (missing_days cfg es)"

text \<open>
  The value that \<open>replace_placeholders_for_day\<close> writes to \<^verbatim>\<open>data['Art']\<close> and
  substitutes for the type placeholder.
\<close>

definition override_type :: "day_data \<Rightarrow> string" where
  "override_type dd =
     (if contains school_marker (get_or_empty (Inhalt dd)) then ''Berufsschule''
      else get_or_empty (Art dd))"

text \<open>
  The inner dictionary of the first entry of a bucket for a day, and the empty dictionary
  when the bucket has no entry for the day: what \<open>process_week_placeholders\<close> hands to
  \<open>replace_placeholders_for_day\<close>.
\<close>

definition first_for_day :: "string \<Rightarrow> day_entry list \<Rightarrow> day_data" where
  "first_for_day day entries = (case map_of entries day of Some dd \<Rightarrow> dd | None \<Rightarrow> empty_data)"

text \<open>The values passed to \<^verbatim>\<open>replace_placeholders\<close> for a key, in the order of the calls.\<close>

fun substituted :: "string \<Rightarrow> call list \<Rightarrow> string list" where
  "substituted key [] = []"
| "substituted key (Replace c k v # cs) =
     (if k = key then v # substituted key cs else substituted key cs)"
| "substituted key (_ # cs) = substituted key cs"

text \<open>
  An entry whose inner dictionary has both keys, as every entry of the initialisation
  has. \<open>entry_frame e e'\<close> says what the substitution may do to an entry: the day name
  and the content stay, and the type either stays or, when the content holds the school
  marker, is the override literal. \<open>weeks_frame\<close> lifts this to \<open>weeks_data\<close>: the same
  weeks in the same order, each with its entries in the same order.
\<close>

definition has_keys :: "day_entry \<Rightarrow> bool" where
  "has_keys e = (Art (snd e) \<noteq> None \<and> Inhalt (snd e) \<noteq> None)"

definition entry_frame :: "day_entry \<Rightarrow> day_entry \<Rightarrow> bool" where
  "entry_frame e e' =
     (fst e' = fst e \<and> Inhalt (snd e') = Inhalt (snd e) \<and>
      (Art (snd e') = Art (snd e) \<or>
       (contains school_marker (get_or_empty (Inhalt (snd e))) \<and> Art (snd e') = Some ''Berufsschule'')))"

definition weeks_frame :: "weeks_data \<Rightarrow> weeks_data \<Rightarrow> bool" where
  "weeks_frame wd wd' =
     list_all2 (\<lambda>b b'. fst b' = fst b \<and> list_all2 entry_frame (snd b) (snd b')) wd wd'"

text \<open>
  The month and the days before it, as \<open>ord2ymd\<close> finds them for the day \<open>n\<close> of a year
  (counted from 0): the estimate \<^verbatim>\<open>(n + 50) >> 5\<close> and its correction.
\<close>

definition month_of :: "bool \<Rightarrow> int \<Rightarrow> int \<times> int" where
  "month_of leapyear n =
     (let mo = (n + 50) div 32;
          preceding = DAYS_BEFORE_MONTH ! nat mo + (if mo > 2 \<and> leapyear then 1 else 0)
      in if preceding > n
         then (mo - 1, preceding - (DAYS_IN_MONTH ! nat (mo - 1) + (if mo - 1 = 2 \<and> leapyear then 1 else 0)))
         else (mo, preceding))"

text \<open>A date of the calendar, in any year from 1 on.\<close>

definition valid_ymd :: "date \<Rightarrow> bool" where
  "valid_ymd dt = (case dt of (y, m, d) \<Rightarrow> 1 \<le> y \<and> 1 \<le> m \<and> m \<le> 12 \<and> 1 \<le> d \<and> d \<le> days_in_month y m)"

text \<open>
  The string \<open>s\<close> is the date with day number \<open>n\<close> in the format \<^verbatim>\<open>dd.mm.yyyy\<close>: it is
  what \<open>strftime\<close> prints for that date, and \<open>strptime\<close> reads it back as a date with
  that day number.
\<close>

definition renders_day :: "bool \<Rightarrow> string \<Rightarrow> int \<Rightarrow> bool" where
  "renders_day padded s n =
     (s = strftime padded (ord2ymd n) \<and> map_option ymd2ord (strptime s) = Some n)"

text \<open>
  Short forms for the concrete tables of the examples. The examples run where the year
  is printed as a plain number; their dates lie in 2024, where this plays no role.
\<close>

abbreviation mk_row :: "string \<Rightarrow> string \<Rightarrow> string \<Rightarrow> string option \<Rightarrow> row" where
  "mk_row d t a b \<equiv> \<lparr>Datum = d, Tag = t, Taetigkeitsbeschreibung = a, Beschreibung = b\<rparr>"

abbreviation mk_config :: "string list \<Rightarrow> (string \<times> string) list \<Rightarrow> config" where
  "mk_config ds acts \<equiv> \<lparr>days = ds, activitys = map_of acts, year_padded = False\<rparr>"

abbreviation mk_data :: "string \<Rightarrow> string \<Rightarrow> day_data" where
  "mk_data a i \<equiv> \<lparr>Art = Some a, Inhalt = Some i\<rparr>"

abbreviation mk_processor :: "(string \<times> string) list \<Rightarrow> row list \<Rightarrow> weeks_data \<Rightarrow> processor" where
  "mk_processor st rows wd \<equiv> \<lparr>settings = map_of st, data = rows, weeks_data = wd\<rparr>"

section \<open>The ISO week as the specification words it\<close>

text \<open>
  The specification's ISO week: weeks start on Monday, and week 1 is the week that holds
  the year's first Thursday. So a week belongs to the year that holds its Thursday, and
  its number is the number of that year's Thursdays up to its own. Day number 1, the
  first of January of year 1, is a Monday; \<open>weekday\<close> counts from Monday as 0.
\<close>

definition weekday :: "int \<Rightarrow> int" where
  "weekday n = (n + 6) mod 7"

definition week_thursday :: "int \<Rightarrow> int" where
  "week_thursday n = n - weekday n + 3"

definition new_year :: "int \<Rightarrow> int" where
  "new_year y = ymd2ord (y, 1, 1)"

definition iso_week_8601 :: "date \<Rightarrow> int" where
  "iso_week_8601 dt =
     (case dt of (y, m, d) \<Rightarrow>
        let th = week_thursday (ymd2ord dt);
            yr = (if th < new_year y then y - 1 else if new_year (y + 1) \<le> th then y + 1 else y)
        in (th - new_year yr) div 7 + 1)"

section \<open>Properties of the content formatter\<close>

lemma split_on_not_Nil: "split_on sep s \<noteq> []"
  by (induction s) (auto split: list.splits)

lemma replace_newline_lines:
  "p @ replace_from 0 [newline] (newline # b) s =
     (case split_on newline s of
        l # ls \<Rightarrow> join [newline] ((p @ l) # map ((@) b) ls)
      | [] \<Rightarrow> p)"
proof (induction s arbitrary: p)
  case Nil
  show ?case by simp
next
  case (Cons c cs)
  obtain l ls where sp: "split_on newline cs = l # ls"
    using split_on_not_Nil [of newline cs] by (cases "split_on newline cs") auto
  show ?case
  proof (cases "c = newline")
    case True
    have "b @ replace_from 0 [newline] (newline # b) cs = join [newline] ((b @ l) # map ((@) b) ls)"
      using Cons.IH [of b] sp by simp
    then show ?thesis using True sp by simp
  next
    case False
    have "(p @ [c]) @ replace_from 0 [newline] (newline # b) cs =
            join [newline] (((p @ [c]) @ l) # map ((@) b) ls)"
      using Cons.IH [of "p @ [c]"] sp by simp
    then show ?thesis using False sp by simp
  qed
qed

lemma bulleted_lines:
  "bullet @ replace [newline] (newline # bullet) s =
     join [newline] (map ((@) bullet) (split_on newline s))"
proof -
  obtain l ls where sp: "split_on newline s = l # ls"
    using split_on_not_Nil [of newline s] by (cases "split_on newline s") auto
  show ?thesis
    using replace_newline_lines [of bullet bullet s] sp by (simp add: replace_def)
qed

text \<open>
  C5, as the code has it. After the marker is removed and the content trimmed, an empty
  content gives the empty string. Otherwise every comma and every occurrence of the two
  characters dash and space is removed, wherever it stands, and the lines of what
  remains are each prefixed with the bullet and joined by newlines. The two examples of
  the specification hold.
\<close>

theorem format_content_bulleted:
  "format_content content =
     (let c = strip (replace school_marker [] content)
      in if c = [] then []
         else join [newline]
                (map ((@) bullet) (split_on newline (replace ''- '' [] (replace '','' [] c)))))
   \<and> format_content [] = []
   \<and> format_content (''foo,bar'' @ [newline] @ ''baz'') = ''-   foobar'' @ [newline] @ ''-   baz''"
proof -
  have "format_content [] = []" by code_simp
  moreover have "format_content (''foo,bar'' @ [newline] @ ''baz'')
      = ''-   foobar'' @ [newline] @ ''-   baz''"
    by code_simp
  ultimately show ?thesis
    by (simp add: format_content_def Let_def bulleted_lines)
qed

theorem format_content_bulleted_witness:
  "format_content ''- a, b'' = ''-   a b''"
  using format_content_bulleted [of "''- a, b''"]
  by (simp add: Let_def strip_def replace_def is_space_def school_marker_def bullet_def
      newline_def)

text \<open>
  C5 as stated fails: a dash that does not lead its line is removed as well. The
  formatter of the specification's words keeps it.
\<close>

theorem format_content_interior_dash_counterexample:
  "format_content ''a - b'' = ''-   a b'' \<and> format_content_spec ''a - b'' = ''-   a - b''"
  by code_simp

section \<open>Properties of the initialisation\<close>

subsection \<open>The first loop\<close>

lemma keys_setdefault_append:
  "map fst (setdefault_append k e wd) =
     (if k \<in> fst ` set wd then map fst wd else map fst wd @ [k])"
  by (induction wd) fastforce+

lemma map_of_setdefault_append:
  "map_of (setdefault_append k e wd) k' =
     (if k' = k then Some (bucket wd k @ [e]) else map_of wd k')"
  by (induction wd) (auto simp: bucket_def)

lemma bucket_setdefault_append:
  "bucket (setdefault_append k e wd) k' =
     (if k' = k then bucket wd k @ [e] else bucket wd k')"
  by (simp add: bucket_def map_of_setdefault_append)

lemma aggregate_Cons:
  "aggregate cfg s (r # rs) (wd, lg) =
     aggregate cfg s rs
       (setdefault_append (relative_week s r) (row_entry cfg r) wd, lg @ snd (get_week (Datum r)))"
  by (simp add: relative_week_def case_prod_beta Let_def)

lemma first_occurrences_set: "set (first_occurrences xs) = set xs"
  by (induction xs) auto

lemma first_occurrences_distinct: "distinct (first_occurrences xs)"
  by (induction xs) (auto simp: distinct_removeAll)

lemma filter_removeAll_absorb: "\<not> P k \<Longrightarrow> filter P (removeAll k xs) = filter P xs"
  by (induction xs) auto

lemma filter_insert_removeAll:
  "filter (\<lambda>k. k \<notin> insert a S) xs = filter (\<lambda>k. k \<notin> S) (removeAll a xs)"
  by (induction xs) auto

lemma aggregate_keys:
  "map fst (fst (aggregate cfg s rows (wd, lg))) =
     map fst wd @ filter (\<lambda>k. k \<notin> fst ` set wd) (first_occurrences (map (relative_week s) rows))"
proof (induction rows arbitrary: wd lg)
  case Nil
  show ?case by simp
next
  case (Cons r rs)
  let ?k = "relative_week s r"
  let ?wd = "setdefault_append ?k (row_entry cfg r) wd"
  let ?fo = "first_occurrences (map (relative_week s) rs)"
  have step: "map fst (fst (aggregate cfg s (r # rs) (wd, lg))) =
      map fst ?wd @ filter (\<lambda>k. k \<notin> fst ` set ?wd) ?fo"
    unfolding aggregate_Cons by (rule Cons.IH)
  show ?case
  proof (cases "?k \<in> fst ` set wd")
    case True
    have keys: "map fst ?wd = map fst wd"
      using True by (simp add: keys_setdefault_append)
    then have sets: "fst ` set ?wd = fst ` set wd"
      by (metis list.set_map)
    have "filter (\<lambda>k. k \<notin> fst ` set wd) (removeAll ?k ?fo) = filter (\<lambda>k. k \<notin> fst ` set wd) ?fo"
      using True by (intro filter_removeAll_absorb) simp
    then show ?thesis using True step keys sets by simp
  next
    case False
    have keys: "map fst ?wd = map fst wd @ [?k]"
      using False by (simp add: keys_setdefault_append)
    then have sets: "fst ` set ?wd = insert ?k (fst ` set wd)"
      by (metis list.set_map set_append list.simps(15) set_simps(1) Un_insert_right sup_bot.right_neutral empty_set)
    have "filter (\<lambda>k. k \<notin> insert ?k (fst ` set wd)) ?fo =
          filter (\<lambda>k. k \<notin> fst ` set wd) (removeAll ?k ?fo)"
      by (rule filter_insert_removeAll)
    then show ?thesis using False step keys sets by simp
  qed
qed

lemma aggregate_lookup:
  "map_of (fst (aggregate cfg s rows (wd, lg))) k =
     (let new = map (row_entry cfg) (filter (\<lambda>r. relative_week s r = k) rows)
      in if new = [] then map_of wd k else Some (bucket wd k @ new))"
proof (induction rows arbitrary: wd lg)
  case Nil
  show ?case by simp
next
  case (Cons r rs)
  show ?case
    unfolding aggregate_Cons
    by (simp add: Cons.IH Let_def map_of_setdefault_append bucket_setdefault_append)
qed

lemma aggregate_log:
  "snd (aggregate cfg s rows (wd, lg)) = lg @ concat (map (\<lambda>r. snd (get_week (Datum r))) rows)"
proof (induction rows arbitrary: wd lg)
  case Nil
  show ?case by simp
next
  case (Cons r rs)
  show ?case unfolding aggregate_Cons by (simp add: Cons.IH)
qed

lemma fst_fill_missing: "fst (fill_missing cfg (w, es)) = (w, fill_entries cfg es)"
  by (simp add: fill_missing_def fill_entries_def Let_def)

lemma map_fst_fill:
  "map (fst \<circ> fill_missing cfg) wd = map (\<lambda>(w, es). (w, fill_entries cfg es)) wd"
  by (induction wd) (auto simp: fst_fill_missing)

lemma map_of_fill:
  "map_of (map (\<lambda>(w, es). (w, fill_entries cfg es)) wd) k = map_option (fill_entries cfg) (map_of wd k)"
  by (induction wd) auto

lemma initialize_weeks_data_Inr:
  assumes "initialize_weeks_data cfg rows = Inr (wd, lg)"
  shows "rows \<noteq> []"
    and "wd = map (\<lambda>(w, es). (w, fill_entries cfg es))
                (fst (aggregate cfg (start_week_of rows) rows ([], snd (get_week (Datum (hd rows))))))"
proof -
  show ne: "rows \<noteq> []"
    using assms by (auto simp: initialize_weeks_data_def)
  then obtain r0 rs where rows: "rows = r0 # rs"
    by (cases rows) auto
  show "wd = map (\<lambda>(w, es). (w, fill_entries cfg es))
                (fst (aggregate cfg (start_week_of rows) rows ([], snd (get_week (Datum (hd rows))))))"
    using assms unfolding rows initialize_weeks_data_def start_week_of_def
    by (auto simp add: map_fst_fill Let_def simp del: aggregate.simps split: prod.splits)
qed

lemma initialize_keys:
  assumes "initialize_weeks_data cfg rows = Inr (wd, lg)"
  shows "map fst wd = first_occurrences (map (relative_week (start_week_of rows)) rows)"
proof -
  have "map fst wd = map fst (fst (aggregate cfg (start_week_of rows) rows ([], snd (get_week (Datum (hd rows))))))"
    unfolding initialize_weeks_data_Inr(2) [OF assms] by (simp add: case_prod_beta comp_def)
  then show ?thesis by (simp add: aggregate_keys)
qed

lemma initialize_lookup:
  assumes "initialize_weeks_data cfg rows = Inr (wd, lg)"
  shows "map_of wd k =
     (if rows_of_week rows k = [] then None
      else Some (fill_entries cfg (map (row_entry cfg) (rows_of_week rows k))))"
  unfolding initialize_weeks_data_Inr(2) [OF assms]
  by (simp add: map_of_fill aggregate_lookup Let_def rows_of_week_def bucket_def)

lemma initialize_distinct:
  assumes "initialize_weeks_data cfg rows = Inr (wd, lg)"
  shows "distinct (map fst wd)"
  by (simp add: initialize_keys [OF assms] first_occurrences_distinct)

subsection \<open>The buckets after both loops\<close>

lemma bucket_initialize:
  assumes "initialize_weeks_data cfg rows = Inr (wd, lg)"
  shows "bucket wd k =
     (if rows_of_week rows k = [] then []
      else fill_entries cfg (map (row_entry cfg) (rows_of_week rows k)))"
  by (simp add: bucket_def initialize_lookup [OF assms])

lemma mem_initialize:
  assumes "initialize_weeks_data cfg rows = Inr (wd, lg)"
  shows "(w, es) \<in> set wd \<longleftrightarrow>
     rows_of_week rows w \<noteq> [] \<and> es = fill_entries cfg (map (row_entry cfg) (rows_of_week rows w))"
proof -
  have "(w, es) \<in> set wd \<longleftrightarrow> map_of wd w = Some es"
    using initialize_distinct [OF assms] by (simp add: map_of_eq_Some_iff)
  then show ?thesis by (auto simp: initialize_lookup [OF assms])
qed

lemma row_in_own_bucket:
  assumes "initialize_weeks_data cfg rows = Inr (wd, lg)" and "r \<in> set rows"
  shows "row_entry cfg r \<in> set (bucket wd (relative_week (start_week_of rows) r))"
proof -
  have "r \<in> set (rows_of_week rows (relative_week (start_week_of rows) r))"
    using assms(2) by (simp add: rows_of_week_def)
  then show ?thesis
    by (auto simp: bucket_initialize [OF assms(1)] fill_entries_def)
qed

lemma get_week_Some: "strptime s = Some dt \<Longrightarrow> get_week s = (iso_week dt, [])"
  by (simp add: get_week_def)

lemma get_week_None: "strptime s = None \<Longrightarrow> get_week s = (-1, [LogError s])"
  by (simp add: get_week_def)

text \<open>
  C4. When every date of the table parses, every record lies in the bucket whose index is
  the ISO week of its date minus the ISO week of the first row's date plus one, and the
  first record lies in bucket 1. The bucket of an index holds the entries of exactly the
  rows with that relative week, in table order, followed by the filled-in days. The
  formula is the one the code computes for any two parsable dates, so no hypothesis about
  the span of the table is needed.
\<close>

theorem records_bucketed_by_iso_week:
  assumes "initialize_weeks_data cfg rows = Inr (wd, lg)"
    and "\<forall>r \<in> set rows. strptime (Datum r) \<noteq> None"
  shows "(\<forall>r \<in> set rows.
            row_entry cfg r \<in> set (bucket wd
              (iso_week (the (strptime (Datum r))) - iso_week (the (strptime (Datum (hd rows)))) + 1)))
       \<and> row_entry cfg (hd rows) \<in> set (bucket wd 1)
       \<and> (\<forall>k. bucket wd k =
            (if rows_of_week rows k = [] then []
             else fill_entries cfg (map (row_entry cfg) (rows_of_week rows k))))"
proof -
  have ne: "rows \<noteq> []" by (rule initialize_weeks_data_Inr(1) [OF assms(1)])
  then have hd_in: "hd rows \<in> set rows" by simp
  have "strptime (Datum (hd rows)) \<noteq> None" using assms(2) hd_in by blast
  then obtain dt0 where dt0: "strptime (Datum (hd rows)) = Some dt0" by blast
  have start: "start_week_of rows = iso_week dt0"
    by (simp add: start_week_of_def get_week_Some [OF dt0])
  have rel: "relative_week (start_week_of rows) r
      = iso_week (the (strptime (Datum r))) - iso_week (the (strptime (Datum (hd rows)))) + 1"
    if "r \<in> set rows" for r
  proof -
    have "strptime (Datum r) \<noteq> None" using assms(2) that by blast
    then obtain dt where dt: "strptime (Datum r) = Some dt" by blast
    show ?thesis by (simp add: relative_week_def start dt dt0 get_week_Some [OF dt])
  qed
  have a: "\<forall>r \<in> set rows.
            row_entry cfg r \<in> set (bucket wd
              (iso_week (the (strptime (Datum r))) - iso_week (the (strptime (Datum (hd rows)))) + 1))"
    using row_in_own_bucket [OF assms(1)] rel by auto
  have "relative_week (start_week_of rows) (hd rows) = 1"
    by (simp add: relative_week_def start_week_of_def)
  then have b: "row_entry cfg (hd rows) \<in> set (bucket wd 1)"
    using row_in_own_bucket [OF assms(1) hd_in] by simp
  show ?thesis using a b bucket_initialize [OF assms(1)] by blast
qed

theorem records_bucketed_by_iso_week_witness:
  "initialize_weeks_data (mk_config [''MONTAG''] [])
     [mk_row ''01.04.2024'' ''Montag'' ''Planung'' None,
      mk_row ''08.04.2024'' ''Montag'' ''Schulung'' None]
   = Inr ([(1, [(''MONTAG'', mk_data ''TAETIGKEIT_UNBEKANNT'' [])]),
           (2, [(''MONTAG'', mk_data ''TAETIGKEIT_UNBEKANNT'' [])])], [])
   \<and> row_entry (mk_config [''MONTAG''] []) (mk_row ''01.04.2024'' ''Montag'' ''Planung'' None)
       \<in> set (bucket [(1, [(''MONTAG'', mk_data ''TAETIGKEIT_UNBEKANNT'' [])]),
           (2, [(''MONTAG'', mk_data ''TAETIGKEIT_UNBEKANNT'' [])])] 1)"
proof -
  have h: "initialize_weeks_data (mk_config [''MONTAG''] [])
     [mk_row ''01.04.2024'' ''Montag'' ''Planung'' None,
      mk_row ''08.04.2024'' ''Montag'' ''Schulung'' None]
   = Inr ([(1, [(''MONTAG'', mk_data ''TAETIGKEIT_UNBEKANNT'' [])]),
           (2, [(''MONTAG'', mk_data ''TAETIGKEIT_UNBEKANNT'' [])])], [])"
    by code_simp
  have p: "\<forall>r \<in> set [mk_row ''01.04.2024'' ''Montag'' ''Planung'' None,
      mk_row ''08.04.2024'' ''Montag'' ''Schulung'' None]. strptime (Datum r) \<noteq> None"
    by code_simp
  show ?thesis
    using h records_bucketed_by_iso_week [OF h p, THEN conjunct2, THEN conjunct1] by simp
qed

lemma day_count_append: "day_count d (xs @ ys) = day_count d xs + day_count d ys"
  by (simp add: day_count_def)

lemma day_count_empty_entries:
  "distinct ds \<Longrightarrow> day_count d (map empty_entry ds) = (if d \<in> set ds then 1 else 0)"
  by (induction ds) (auto simp: day_count_def empty_entry_def filter_map comp_def)

lemma day_count_zero_iff: "day_count d es = 0 \<longleftrightarrow> d \<notin> fst ` set es"
  by (auto simp: day_count_def filter_empty_conv)

lemma day_count_fill_entries:
  assumes "d \<in> set (days cfg)"
  shows "day_count d (fill_entries cfg es) = max 1 (day_count d es)"
proof -
  have dist: "distinct (missing_days cfg es)"
    by (simp add: missing_days_def Let_def)
  have mem: "d \<in> set (missing_days cfg es) \<longleftrightarrow> day_count d es = 0"
    using assms by (auto simp: missing_days_def Let_def day_count_zero_iff)
  show ?thesis
    by (simp add: fill_entries_def day_count_append day_count_empty_entries [OF dist] mem)
qed

lemma day_count_row_entries:
  "day_count d (map (row_entry cfg) rs) = length (filter (\<lambda>r. upper (Tag r) = d) rs)"
  by (induction rs) (auto simp: day_count_def row_entry_def)

text \<open>
  C1, as the code has it. After initialisation every configured day occurs in every
  bucket at least once; it occurs as often as the table has rows of that week with that
  day name (in upper case), and once when it has none. So a configured day occurs exactly
  once in a bucket unless several rows of the week share it.
\<close>

theorem bucket_day_counts:
  assumes "initialize_weeks_data cfg rows = Inr (wd, lg)"
    and "(w, es) \<in> set wd" and "d \<in> set (days cfg)"
  shows "1 \<le> day_count d es
       \<and> day_count d es = max 1 (length (filter (\<lambda>r. upper (Tag r) = d) (rows_of_week rows w)))"
proof -
  have es: "es = fill_entries cfg (map (row_entry cfg) (rows_of_week rows w))"
    using assms(2) by (simp add: mem_initialize [OF assms(1)])
  show ?thesis
    unfolding es by (simp add: day_count_fill_entries [OF assms(3)] day_count_row_entries)
qed

theorem bucket_day_counts_witness:
  "initialize_weeks_data (mk_config [''MONTAG'', ''DIENSTAG''] [])
     [mk_row ''01.04.2024'' ''Montag'' ''Planung'' None]
   = Inr ([(1, [(''MONTAG'', mk_data ''TAETIGKEIT_UNBEKANNT'' []),
                (''DIENSTAG'', mk_data [] [])])], [LogWarning ''DIENSTAG'' 1])
   \<and> day_count ''DIENSTAG'' [(''MONTAG'', mk_data ''TAETIGKEIT_UNBEKANNT'' []),
                (''DIENSTAG'', mk_data [] [])] = 1"
proof -
  have h: "initialize_weeks_data (mk_config [''MONTAG'', ''DIENSTAG''] [])
     [mk_row ''01.04.2024'' ''Montag'' ''Planung'' None]
   = Inr ([(1, [(''MONTAG'', mk_data ''TAETIGKEIT_UNBEKANNT'' []),
                (''DIENSTAG'', mk_data [] [])])], [LogWarning ''DIENSTAG'' 1])"
    by code_simp
  have "rows_of_week [mk_row ''01.04.2024'' ''Montag'' ''Planung'' None] 1
        = [mk_row ''01.04.2024'' ''Montag'' ''Planung'' None]"
    by (simp add: rows_of_week_def relative_week_def start_week_of_def)
  moreover have "upper ''Montag'' \<noteq> ''DIENSTAG''" by code_simp
  ultimately show ?thesis
    using h bucket_day_counts [OF h, of 1 _ "''DIENSTAG''"] by simp
qed

text \<open>
  C1 as stated fails: two rows for the same day of the same week are both kept, so the
  bucket holds the day twice.
\<close>

theorem duplicate_day_counterexample:
  "initialize_weeks_data (mk_config [''MONTAG''] [])
     [mk_row ''01.04.2024'' ''Montag'' ''Planung'' None,
      mk_row ''01.04.2024'' ''Montag'' ''Schulung'' None]
   = Inr ([(1, [(''MONTAG'', mk_data ''TAETIGKEIT_UNBEKANNT'' []),
                (''MONTAG'', mk_data ''TAETIGKEIT_UNBEKANNT'' [])])], [])"
  by code_simp

text \<open>
  C10. Without rows the initialisation, and with it the construction of the processor,
  raises IndexError at the read of the first row's date; with at least one row both
  return.
\<close>

theorem initialize_total_iff_nonempty:
  "initialize_weeks_data cfg [] = Inl IndexError
   \<and> new_processor cfg st [] = Inl IndexError
   \<and> (rows \<noteq> [] \<longrightarrow>
        (\<exists>wd lg. initialize_weeks_data cfg rows = Inr (wd, lg)
           \<and> new_processor cfg st rows = Inr (\<lparr>settings = st, data = rows, weeks_data = wd\<rparr>, lg)))"
  by (cases rows)
     (simp_all add: initialize_weeks_data_def new_processor_def case_prod_beta Let_def
        del: aggregate.simps)

theorem initialize_total_iff_nonempty_witness:
  "initialize_weeks_data (mk_config [''MONTAG''] []) [] = Inl IndexError
   \<and> (\<exists>wd lg. initialize_weeks_data (mk_config [''MONTAG''] [])
         [mk_row ''01.04.2024'' ''Montag'' ''Planung'' None] = Inr (wd, lg))"
  using initialize_total_iff_nonempty
    [of "mk_config [''MONTAG''] []" "map_of []" "[mk_row ''01.04.2024'' ''Montag'' ''Planung'' None]"]
  by auto

lemma sorted_first_occurrences:
  fixes xs :: "int list"
  shows "sorted xs \<Longrightarrow> sorted_wrt (<) (first_occurrences xs)"
proof (induction xs)
  case Nil
  show ?case by simp
next
  case (Cons x xs)
  have "sorted_wrt (<) (first_occurrences xs)" using Cons by simp
  then have "sorted_wrt (<) (removeAll x (first_occurrences xs))"
    by (simp add: removeAll_filter_not_eq sorted_wrt_filter)
  moreover have "\<forall>y \<in> set (removeAll x (first_occurrences xs)). x < y"
    using Cons.prems by (auto simp: first_occurrences_set order_less_le)
  ultimately show ?case by simp
qed

section \<open>Properties of the substitution\<close>

subsection \<open>One day in one cell\<close>

lemma for_each_invariant:
  assumes "for_each body xs s = Inr s'" and "P s"
    and "\<And>x t t'. x \<in> set xs \<Longrightarrow> P t \<Longrightarrow> body x t = Inr t' \<Longrightarrow> P t'"
  shows "P s'"
  using assms
proof (induction xs arbitrary: s)
  case Nil
  then show ?case by simp
next
  case (Cons x xs)
  from Cons.prems(1) obtain t where t: "body x s = Inr t" and rest: "for_each body xs t = Inr s'"
    by (auto split: sum.splits)
  have pt: "P t" using Cons.prems(3) [of x s t] Cons.prems(2) t by simp
  show ?case
  proof (rule Cons.IH [OF rest pt])
    fix y u u'
    assume "y \<in> set xs" "P u" "body y u = Inr u'"
    then show "P u'" using Cons.prems(3) [of y u u'] by simp
  qed
qed

lemma replace_placeholders_for_day_Inr:
  assumes "replace_placeholders_for_day st c day week dd = Inr (dd', cs)"
  shows "\<exists>h. st ''default_hours'' = Some h
           \<and> dd' = dd\<lparr>Art := Some (override_type dd)\<rparr>
           \<and> cs = [Replace c (placeholder day ''INHALT'' week) (format_content (get_or_empty (Inhalt dd))),
                   Replace c (placeholder day ''STUNDEN'' week) h,
                   Replace c (placeholder day ''ART'' week) (override_type dd)]"
  using assms
  by (auto simp: replace_placeholders_for_day_def override_type_def Let_def get_or_empty_def
      split: option.splits)

lemma replace_placeholders_for_day_KeyError:
  "st ''default_hours'' = None \<Longrightarrow> replace_placeholders_for_day st c day week dd = Inl KeyError"
  by (simp add: replace_placeholders_for_day_def Let_def)

subsection \<open>The loops over days, cells and weeks\<close>

lemma find_day_Some:
  "find_day d es = Some i \<Longrightarrow> i < length es \<and> fst (es ! i) = d"
proof (induction es arbitrary: i)
  case Nil
  then show ?case by simp
next
  case (Cons e es)
  then show ?case by (cases "fst e = d") auto
qed

lemma entry_frame_refl: "entry_frame e e"
  by (simp add: entry_frame_def)

lemma entry_frame_trans: "entry_frame a b \<Longrightarrow> entry_frame b c \<Longrightarrow> entry_frame a c"
  by (auto simp: entry_frame_def)

lemma bucket_frame_refl: "list_all2 entry_frame es es"
  by (simp add: list_all2_refl entry_frame_refl)

lemma bucket_frame_trans:
  "list_all2 entry_frame as bs \<Longrightarrow> list_all2 entry_frame bs cs \<Longrightarrow> list_all2 entry_frame as cs"
  by (rule list_all2_trans [of entry_frame entry_frame entry_frame]) (auto intro: entry_frame_trans)

lemma entry_frame_override:
  assumes "has_keys e"
  shows "entry_frame e (fst e, (snd e)\<lparr>Art := Some (override_type (snd e))\<rparr>)"
    and "has_keys (fst e, (snd e)\<lparr>Art := Some (override_type (snd e))\<rparr>)"
  using assms by (auto simp: entry_frame_def has_keys_def override_type_def get_or_empty_def)

lemma entry_frame_has_keys: "entry_frame e e' \<Longrightarrow> has_keys e \<Longrightarrow> has_keys e'"
  by (auto simp: entry_frame_def has_keys_def)

lemma bucket_frame_has_keys:
  "list_all2 entry_frame es es' \<Longrightarrow> list_all has_keys es \<Longrightarrow> list_all has_keys es'"
  by (induction rule: list_all2_induct) (auto intro: entry_frame_has_keys)

lemma process_day_frame:
  assumes "process_day st c week d (es, calls) = Inr (es', calls')" and "list_all has_keys es"
  shows "list_all2 entry_frame es es'"
proof (cases "find_day d es")
  case None
  then have "es' = es" using assms(1) by (auto simp: process_day_def split: sum.splits)
  then show ?thesis by (simp add: bucket_frame_refl)
next
  case (Some i)
  then have i: "i < length es" using find_day_Some by blast
  from assms(1) Some obtain dd cs where
    r: "replace_placeholders_for_day st c d week (snd (es ! i)) = Inr (dd, cs)"
    and es': "es' = es[i := (fst (es ! i), dd)]"
    by (auto simp: process_day_def split: sum.splits)
  have dd: "dd = (snd (es ! i))\<lparr>Art := Some (override_type (snd (es ! i)))\<rparr>"
    using replace_placeholders_for_day_Inr [OF r] by blast
  have "has_keys (es ! i)" using assms(2) i by (simp add: list_all_length)
  then have "entry_frame (es ! i) (fst (es ! i), dd)"
    unfolding dd by (rule entry_frame_override)
  then have "list_all2 entry_frame (es[i := es ! i]) (es[i := (fst (es ! i), dd)])"
    by (intro list_all2_update_cong bucket_frame_refl)
  then show ?thesis by (simp add: es')
qed

lemma visited_weeks_append: "visited_weeks (xs @ ys) = visited_weeks xs @ visited_weeks ys"
  by (induction xs rule: visited_weeks.induct) auto

lemma process_day_visited:
  assumes "process_day st c week d (es, calls) = Inr (es', calls')"
  shows "visited_weeks calls' = visited_weeks calls"
proof -
  from assms obtain dd0 dd cs where
    r: "replace_placeholders_for_day st c d week dd0 = Inr (dd, cs)" and calls': "calls' = calls @ cs"
    by (auto simp: process_day_def split: sum.splits option.splits)
  have "visited_weeks cs = []"
    using replace_placeholders_for_day_Inr [OF r] by auto
  then show ?thesis by (simp add: calls' visited_weeks_append)
qed

text \<open>What one cell leaves: the entries in frame, the visited weeks as they were.\<close>

lemma process_cell_frame:
  assumes "process_cell cfg st week gp c (es, calls) = Inr (es', calls')"
    and "list_all has_keys es"
  shows "list_all2 entry_frame es es' \<and> visited_weeks calls' = visited_weeks calls"
proof -
  let ?P = "\<lambda>s. list_all2 entry_frame es (fst s) \<and> visited_weeks (snd s) = visited_weeks calls"
  have loop: "for_each (process_day st c week) (days cfg) (es, calls @ [ReplaceGeneral c gp])
      = Inr (es', calls')"
    using assms(1) by (simp add: process_cell_def)
  have "?P (es', calls')"
  proof (rule for_each_invariant [OF loop, of ?P])
    show "?P (es, calls @ [ReplaceGeneral c gp])"
      by (simp add: bucket_frame_refl visited_weeks_append)
  next
    fix d t t'
    assume inv: "?P t" and step: "process_day st c week d t = Inr t'"
    obtain es1 cs1 where t: "t = (es1, cs1)" by (cases t)
    obtain es2 cs2 where t': "t' = (es2, cs2)" by (cases t')
    have keys: "list_all has_keys es1"
      using inv assms(2) bucket_frame_has_keys by (auto simp: t)
    have "list_all2 entry_frame es1 es2"
      using process_day_frame [OF step [unfolded t t'] keys] .
    moreover have "visited_weeks cs2 = visited_weeks cs1"
      using process_day_visited [OF step [unfolded t t']] .
    ultimately show "?P t'"
      using inv bucket_frame_trans by (auto simp: t t')
  qed
  then show ?thesis by simp
qed

lemma process_week_placeholders_frame:
  assumes "process_week_placeholders cfg st rows cells week (es, calls) = Inr (es', calls')"
    and "list_all has_keys es"
  shows "list_all2 entry_frame es es' \<and> visited_weeks calls' = visited_weeks calls @ [week]"
proof -
  let ?P = "\<lambda>s. list_all2 entry_frame es (fst s)
              \<and> visited_weeks (snd s) = visited_weeks calls @ [week]"
  from assms(1) obtain gp where
    loop: "for_each (process_cell cfg st week gp) cells (es, calls @ [ProcessWeek week])
      = Inr (es', calls')"
    by (auto simp: process_week_placeholders_def Let_def split: list.splits sum.splits)
  have "?P (es', calls')"
  proof (rule for_each_invariant [OF loop, of ?P])
    show "?P (es, calls @ [ProcessWeek week])"
      by (simp add: bucket_frame_refl visited_weeks_append)
  next
    fix c t t'
    assume inv: "?P t" and step: "process_cell cfg st week gp c t = Inr t'"
    obtain es1 cs1 where t: "t = (es1, cs1)" by (cases t)
    obtain es2 cs2 where t': "t' = (es2, cs2)" by (cases t')
    have keys: "list_all has_keys es1"
      using inv assms(2) bucket_frame_has_keys by (auto simp: t)
    have "list_all2 entry_frame es1 es2 \<and> visited_weeks cs2 = visited_weeks cs1"
      using process_cell_frame [OF step [unfolded t t'] keys] .
    then show "?P t'"
      using inv bucket_frame_trans by (auto simp: t t')
  qed
  then show ?thesis by simp
qed

lemma process_weeks_frame:
  assumes "process_weeks cfg st rows cells wd calls = Inr (wd', calls')"
    and "\<forall>b \<in> set wd. list_all has_keys (snd b)"
  shows "weeks_frame wd wd' \<and> visited_weeks calls' = visited_weeks calls @ map fst wd"
  using assms
proof (induction wd arbitrary: calls wd' calls')
  case Nil
  then show ?case by (simp add: weeks_frame_def)
next
  case (Cons b wd)
  obtain week es where b: "b = (week, es)" by (cases b)
  from Cons.prems(1) obtain es1 calls1 rest1 where
    first: "process_week_placeholders cfg st rows cells week (es, calls) = Inr (es1, calls1)"
    and rest: "process_weeks cfg st rows cells wd calls1 = Inr (rest1, calls')"
    and wd': "wd' = (week, es1) # rest1"
    by (auto simp: b split: sum.splits)
  have "list_all has_keys es" using Cons.prems(2) by (simp add: b)
  from process_week_placeholders_frame [OF first this]
  have f1: "list_all2 entry_frame es es1" and v1: "visited_weeks calls1 = visited_weeks calls @ [week]"
    by simp_all
  have "weeks_frame wd rest1 \<and> visited_weeks calls' = visited_weeks calls1 @ map fst wd"
    using Cons.IH [OF rest] Cons.prems(2) by simp
  then show ?case
    using f1 v1 by (simp add: weeks_frame_def b wd')
qed

lemma row_entry_has_keys: "has_keys (row_entry cfg r)"
  by (simp add: has_keys_def row_entry_def)

lemma empty_entry_has_keys: "has_keys (empty_entry d)"
  by (simp add: has_keys_def empty_entry_def)

lemma fill_entries_rows_has_keys:
  "list_all has_keys (fill_entries cfg (map (row_entry cfg) rs))"
  by (auto simp: fill_entries_def list_all_iff row_entry_has_keys empty_entry_has_keys)

lemma initialize_has_keys:
  assumes "initialize_weeks_data cfg rows = Inr (wd, lg)"
  shows "\<forall>b \<in> set wd. list_all has_keys (snd b)"
proof
  fix b assume "b \<in> set wd"
  then have "(fst b, snd b) \<in> set wd" by simp
  with mem_initialize [OF assms, of "fst b" "snd b"]
  have "snd b = fill_entries cfg (map (row_entry cfg) (rows_of_week rows (fst b)))"
    by blast
  then show "list_all has_keys (snd b)" by (simp add: fill_entries_rows_has_keys)
qed

lemma contains_Nil: "contains school_marker [] = False"
  by (simp add: school_marker_def)

lemma initialize_marker_from_rows:
  assumes "initialize_weeks_data cfg rows = Inr (wd, lg)"
    and "b \<in> set wd" and "e \<in> set (snd b)"
    and "contains school_marker (get_or_empty (Inhalt (snd e)))"
  shows "\<exists>r \<in> set rows. contains school_marker (get_or_empty (Beschreibung r))"
proof -
  have "(fst b, snd b) \<in> set wd" using assms(2) by simp
  with mem_initialize [OF assms(1), of "fst b" "snd b"]
  have "snd b = fill_entries cfg (map (row_entry cfg) (rows_of_week rows (fst b)))"
    by blast
  then consider r where "r \<in> set rows" "e = row_entry cfg r" | d where "e = empty_entry d"
    using assms(3) by (auto simp: fill_entries_def rows_of_week_def)
  then show ?thesis
  proof cases
    case 1
    then show ?thesis using assms(4) by (auto simp: row_entry_def get_or_empty_def)
  next
    case 2
    then show ?thesis using assms(4) by (simp add: empty_entry_def get_or_empty_def school_marker_def)
  qed
qed

lemma entry_frame_no_marker:
  "entry_frame e e' \<Longrightarrow> \<not> contains school_marker (get_or_empty (Inhalt (snd e))) \<Longrightarrow> e' = e"
  by (cases e; cases e') (auto simp: entry_frame_def)

lemma bucket_frame_no_marker:
  "list_all2 entry_frame es es' \<Longrightarrow>
   \<forall>e \<in> set es. \<not> contains school_marker (get_or_empty (Inhalt (snd e))) \<Longrightarrow> es' = es"
  by (induction rule: list_all2_induct) (auto dest: entry_frame_no_marker)

lemma weeks_frame_no_marker:
  "weeks_frame wd wd' \<Longrightarrow>
   \<forall>b \<in> set wd. \<forall>e \<in> set (snd b). \<not> contains school_marker (get_or_empty (Inhalt (snd e))) \<Longrightarrow>
   wd' = wd"
  unfolding weeks_frame_def
  by (induction rule: list_all2_induct) (auto dest: bucket_frame_no_marker simp: prod_eq_iff)

lemma new_processor_Inr:
  assumes "new_processor cfg st rows = Inr (p, lg)"
  shows "initialize_weeks_data cfg rows = Inr (weeks_data p, lg)"
    and "settings p = st" and "data p = rows"
  using assms by (auto simp: new_processor_def split: sum.splits)

lemma process_all_weeks_Inr:
  assumes "process_all_weeks cfg cells p = Inr (p', calls)"
  shows "process_weeks cfg (settings p) (data p) cells (weeks_data p) [] = Inr (weeks_data p', calls)"
    and "settings p' = settings p" and "data p' = data p"
  using assms by (auto simp: process_all_weeks_def split: sum.splits)

lemma process_all_weeks_weeks_data:
  "map_sum id (weeks_data \<circ> fst) (process_all_weeks cfg cells p)
     = map_sum id fst (process_weeks cfg (settings p) (data p) cells (weeks_data p) [])"
  by (simp add: process_all_weeks_def split: sum.splits)

lemma process_all_weeks_visited:
  "map_sum id (visited_weeks \<circ> snd) (process_all_weeks cfg cells p)
     = map_sum id (visited_weeks \<circ> snd) (process_weeks cfg (settings p) (data p) cells (weeks_data p) [])"
  by (simp add: process_all_weeks_def split: sum.splits)

text \<open>
  C2, as the code has it. A run of the substitution that returns leaves the settings and
  the table as they were, and \<open>weeks_data\<close> in frame: the same weeks and entries in the
  same order, every day name and content unchanged, and every type either unchanged or,
  for an entry whose content holds the school marker, overwritten with the override
  literal. When no content of the table holds the marker, \<open>weeks_data\<close> is unchanged.
\<close>

theorem substitution_frame:
  assumes "new_processor cfg st rows = Inr (p, lg)"
    and "process_all_weeks cfg cells p = Inr (p', calls)"
  shows "weeks_frame (weeks_data p) (weeks_data p')
       \<and> settings p' = settings p \<and> data p' = data p
       \<and> ((\<forall>r \<in> set rows. \<not> contains school_marker (get_or_empty (Beschreibung r)))
            \<longrightarrow> weeks_data p' = weeks_data p)"
proof -
  note init = new_processor_Inr(1) [OF assms(1)]
  note run = process_all_weeks_Inr [OF assms(2)]
  have frame: "weeks_frame (weeks_data p) (weeks_data p')"
    using process_weeks_frame [OF run(1) initialize_has_keys [OF init]] by simp
  have "weeks_data p' = weeks_data p"
    if "\<forall>r \<in> set rows. \<not> contains school_marker (get_or_empty (Beschreibung r))"
  proof (rule weeks_frame_no_marker [OF frame], intro ballI)
    fix b e assume "b \<in> set (weeks_data p)" "e \<in> set (snd b)"
    then show "\<not> contains school_marker (get_or_empty (Inhalt (snd e)))"
      using initialize_marker_from_rows [OF init] that by blast
  qed
  then show ?thesis using frame run(2,3) by blast
qed

theorem substitution_frame_witness:
  "new_processor (mk_config [''MONTAG''] []) (map_of [(''default_hours'', ''8'')])
       [mk_row ''01.04.2024'' ''Montag'' ''Unterricht'' (Some ''Berufsschule Mathe'')]
     = Inr (mk_processor [(''default_hours'', ''8'')]
              [mk_row ''01.04.2024'' ''Montag'' ''Unterricht'' (Some ''Berufsschule Mathe'')]
              [(1, [(''MONTAG'', mk_data ''TAETIGKEIT_UNBEKANNT'' ''Berufsschule Mathe'')])], [])
   \<and> process_all_weeks (mk_config [''MONTAG''] []) [0]
          (mk_processor [(''default_hours'', ''8'')]
              [mk_row ''01.04.2024'' ''Montag'' ''Unterricht'' (Some ''Berufsschule Mathe'')]
              [(1, [(''MONTAG'', mk_data ''TAETIGKEIT_UNBEKANNT'' ''Berufsschule Mathe'')])])
     = Inr (mk_processor [(''default_hours'', ''8'')]
              [mk_row ''01.04.2024'' ''Montag'' ''Unterricht'' (Some ''Berufsschule Mathe'')]
              [(1, [(''MONTAG'', mk_data ''Berufsschule'' ''Berufsschule Mathe'')])],
            [ProcessWeek 1,
             ReplaceGeneral 0 [(''{NAME}'', ''N/A''), (''{ABJ}'', ''N/A''),
               (''{DATUM_START1}'', ''01.04.2024''), (''{DATUM_ENDE1}'', ''05.04.2024'')],
             Replace 0 ''{MONTAG_INHALT1}'' ''-   Mathe'',
             Replace 0 ''{MONTAG_STUNDEN1}'' ''8'',
             Replace 0 ''{MONTAG_ART1}'' ''Berufsschule''])
   \<and> weeks_frame [(1, [(''MONTAG'', mk_data ''TAETIGKEIT_UNBEKANNT'' ''Berufsschule Mathe'')])]
        [(1, [(''MONTAG'', mk_data ''Berufsschule'' ''Berufsschule Mathe'')])]"
proof -
  have "initialize_weeks_data (mk_config [''MONTAG''] [])
       [mk_row ''01.04.2024'' ''Montag'' ''Unterricht'' (Some ''Berufsschule Mathe'')]
     = Inr ([(1, [(''MONTAG'', mk_data ''TAETIGKEIT_UNBEKANNT'' ''Berufsschule Mathe'')])], [])"
    by code_simp
  then have a: "new_processor (mk_config [''MONTAG''] []) (map_of [(''default_hours'', ''8'')])
       [mk_row ''01.04.2024'' ''Montag'' ''Unterricht'' (Some ''Berufsschule Mathe'')]
     = Inr (mk_processor [(''default_hours'', ''8'')]
              [mk_row ''01.04.2024'' ''Montag'' ''Unterricht'' (Some ''Berufsschule Mathe'')]
              [(1, [(''MONTAG'', mk_data ''TAETIGKEIT_UNBEKANNT'' ''Berufsschule Mathe'')])], [])"
    by (simp add: new_processor_def)
  have "process_weeks (mk_config [''MONTAG''] []) (map_of [(''default_hours'', ''8'')])
          [mk_row ''01.04.2024'' ''Montag'' ''Unterricht'' (Some ''Berufsschule Mathe'')] [0]
          [(1, [(''MONTAG'', mk_data ''TAETIGKEIT_UNBEKANNT'' ''Berufsschule Mathe'')])] []
     = Inr ([(1, [(''MONTAG'', mk_data ''Berufsschule'' ''Berufsschule Mathe'')])],
            [ProcessWeek 1,
             ReplaceGeneral 0 [(''{NAME}'', ''N/A''), (''{ABJ}'', ''N/A''),
               (''{DATUM_START1}'', ''01.04.2024''), (''{DATUM_ENDE1}'', ''05.04.2024'')],
             Replace 0 ''{MONTAG_INHALT1}'' ''-   Mathe'',
             Replace 0 ''{MONTAG_STUNDEN1}'' ''8'',
             Replace 0 ''{MONTAG_ART1}'' ''Berufsschule''])"
    by code_simp
  then have b: "process_all_weeks (mk_config [''MONTAG''] []) [0]
          (mk_processor [(''default_hours'', ''8'')]
              [mk_row ''01.04.2024'' ''Montag'' ''Unterricht'' (Some ''Berufsschule Mathe'')]
              [(1, [(''MONTAG'', mk_data ''TAETIGKEIT_UNBEKANNT'' ''Berufsschule Mathe'')])])
     = Inr (mk_processor [(''default_hours'', ''8'')]
              [mk_row ''01.04.2024'' ''Montag'' ''Unterricht'' (Some ''Berufsschule Mathe'')]
              [(1, [(''MONTAG'', mk_data ''Berufsschule'' ''Berufsschule Mathe'')])],
            [ProcessWeek 1,
             ReplaceGeneral 0 [(''{NAME}'', ''N/A''), (''{ABJ}'', ''N/A''),
               (''{DATUM_START1}'', ''01.04.2024''), (''{DATUM_ENDE1}'', ''05.04.2024'')],
             Replace 0 ''{MONTAG_INHALT1}'' ''-   Mathe'',
             Replace 0 ''{MONTAG_STUNDEN1}'' ''8'',
             Replace 0 ''{MONTAG_ART1}'' ''Berufsschule''])"
    by (simp add: process_all_weeks_def)
  show ?thesis
    using a b substitution_frame [OF a b, THEN conjunct1] by simp
qed

text \<open>
  C2 as stated fails: \<open>replace_placeholders_for_day\<close> assigns to \<^verbatim>\<open>data['Art']\<close>, and
  \<open>data\<close> is the dictionary inside \<open>weeks_data\<close>. After the run the type of an entry with
  the marker in its content is no longer the one the initialisation stored.
\<close>

theorem substitution_writes_type_counterexample:
  "new_processor (mk_config [''MONTAG''] []) (map_of [(''default_hours'', ''8'')])
       [mk_row ''01.04.2024'' ''Montag'' ''Unterricht'' (Some ''Berufsschule Mathe'')]
     = Inr (mk_processor [(''default_hours'', ''8'')]
              [mk_row ''01.04.2024'' ''Montag'' ''Unterricht'' (Some ''Berufsschule Mathe'')]
              [(1, [(''MONTAG'', mk_data ''TAETIGKEIT_UNBEKANNT'' ''Berufsschule Mathe'')])], [])
   \<and> map_sum id (weeks_data \<circ> fst)
       (process_all_weeks (mk_config [''MONTAG''] []) [0]
          (mk_processor [(''default_hours'', ''8'')]
              [mk_row ''01.04.2024'' ''Montag'' ''Unterricht'' (Some ''Berufsschule Mathe'')]
              [(1, [(''MONTAG'', mk_data ''TAETIGKEIT_UNBEKANNT'' ''Berufsschule Mathe'')])]))
     = Inr [(1, [(''MONTAG'', mk_data ''Berufsschule'' ''Berufsschule Mathe'')])]"
proof -
  have "initialize_weeks_data (mk_config [''MONTAG''] [])
       [mk_row ''01.04.2024'' ''Montag'' ''Unterricht'' (Some ''Berufsschule Mathe'')]
     = Inr ([(1, [(''MONTAG'', mk_data ''TAETIGKEIT_UNBEKANNT'' ''Berufsschule Mathe'')])], [])"
    by code_simp
  then have a: "new_processor (mk_config [''MONTAG''] []) (map_of [(''default_hours'', ''8'')])
       [mk_row ''01.04.2024'' ''Montag'' ''Unterricht'' (Some ''Berufsschule Mathe'')]
     = Inr (mk_processor [(''default_hours'', ''8'')]
              [mk_row ''01.04.2024'' ''Montag'' ''Unterricht'' (Some ''Berufsschule Mathe'')]
              [(1, [(''MONTAG'', mk_data ''TAETIGKEIT_UNBEKANNT'' ''Berufsschule Mathe'')])], [])"
    by (simp add: new_processor_def)
  have "map_sum id fst
       (process_weeks (mk_config [''MONTAG''] []) (map_of [(''default_hours'', ''8'')])
          [mk_row ''01.04.2024'' ''Montag'' ''Unterricht'' (Some ''Berufsschule Mathe'')] [0]
          [(1, [(''MONTAG'', mk_data ''TAETIGKEIT_UNBEKANNT'' ''Berufsschule Mathe'')])] [])
     = Inr [(1, [(''MONTAG'', mk_data ''Berufsschule'' ''Berufsschule Mathe'')])]"
    by code_simp
  then show ?thesis using a by (simp add: process_all_weeks_weeks_data)
qed

subsection \<open>The type substituted for a day\<close>

lemma map_of_find_day: "map_of es d = map_option (\<lambda>i. snd (es ! i)) (find_day d es)"
proof (induction es)
  case Nil
  show ?case by simp
next
  case (Cons e es)
  show ?case
  proof (cases "fst e = d")
    case True
    then show ?thesis by (cases e) auto
  next
    case False
    then show ?thesis using Cons by (cases e) (auto simp: option.map_comp comp_def)
  qed
qed

lemma first_for_day_find_day:
  "first_for_day d es = (case find_day d es of None \<Rightarrow> empty_data | Some i \<Rightarrow> snd (es ! i))"
  by (simp add: first_for_day_def map_of_find_day split: option.splits)

text \<open>Printed numbers: digits after an optional sign, and different for different numbers.\<close>

lemma of_char_digit_char_nat: "n < 10 \<Longrightarrow> (of_char (digit_char (int n)) :: nat) = 48 + n"
  by (simp add: digit_char_def)

lemma show_nat_digits: "c \<in> set (show_nat n) \<Longrightarrow> is_digit c"
proof (induction n rule: show_nat.induct)
  case (1 n)
  show ?case
  proof (cases "n < 10")
    case True
    then show ?thesis
      using "1.prems" by (subst (asm) show_nat.simps) (simp add: is_digit_def of_char_digit_char_nat)
  next
    case False
    have "n mod 10 < 10" by simp
    then have "is_digit (digit_char (int (n mod 10)))"
      by (simp add: is_digit_def of_char_digit_char_nat del: of_nat_mod)
    then show ?thesis
      using False "1.prems" "1.IH" by (subst (asm) show_nat.simps) auto
  qed
qed

lemma show_nat_value: "foldl (\<lambda>a c. 10 * a + (of_char c - 48)) 0 (show_nat n) = n"
proof (induction n rule: show_nat.induct)
  case (1 n)
  show ?case
  proof (cases "n < 10")
    case True
    then show ?thesis by (subst show_nat.simps) (simp add: of_char_digit_char_nat)
  next
    case False
    have "n mod 10 < 10" by simp
    then have "(of_char (digit_char (int (n mod 10))) :: nat) = 48 + n mod 10"
      by (rule of_char_digit_char_nat)
    then show ?thesis
      using False "1.IH" by (subst show_nat.simps) (simp del: of_nat_mod)
  qed
qed

lemma show_nat_inj:
  assumes "show_nat m = show_nat n"
  shows "m = n"
proof -
  have "m = foldl (\<lambda>a c. 10 * a + (of_char c - 48)) 0 (show_nat m)"
    by (simp only: show_nat_value)
  also have "\<dots> = foldl (\<lambda>a c. 10 * a + (of_char c - 48)) 0 (show_nat n)"
    by (simp only: assms)
  also have "\<dots> = n" by (simp only: show_nat_value)
  finally show ?thesis .
qed

lemma show_nat_not_Nil: "show_nat n \<noteq> []"
  by (subst show_nat.simps) simp

lemma show_int_inj:
  assumes "show_int i = show_int j"
  shows "i = j"
proof -
  have nd: "\<not> is_digit CHR ''-''" by (simp add: is_digit_def)
  have no: "CHR ''-'' # xs \<noteq> show_nat n" for xs n
    using show_nat_digits [of "CHR ''-''" n] nd by (metis list.set_intros(1))
  show ?thesis
  proof (cases "i < 0")
    case True
    show ?thesis
    proof (cases "j < 0")
      case j: True
      then have "nat (- i) = nat (- j)"
        using assms True by (intro show_nat_inj) (simp add: show_int_def)
      then show ?thesis using True j by simp
    next
      case j: False
      then show ?thesis using assms True no by (simp add: show_int_def)
    qed
  next
    case False
    show ?thesis
    proof (cases "j < 0")
      case j: True
      then show ?thesis using assms False no [symmetric] by (simp add: show_int_def)
    next
      case j: False
      then have "nat i = nat j"
        using assms False by (intro show_nat_inj) (simp add: show_int_def)
      then show ?thesis using False j by simp
    qed
  qed
qed

lemma show_int_chars: "c \<in> set (show_int k) \<Longrightarrow> is_digit c \<or> c = CHR ''-''"
  using show_nat_digits by (auto simp: show_int_def split: if_splits)

lemma numeric_suffix_unique:
  assumes "\<forall>c \<in> set a. P c" and "\<forall>c \<in> set a'. P c" and "\<not> P x" and "\<not> P x'"
    and "a @ x # r = a' @ x' # r'"
  shows "a = a' \<and> x # r = x' # r'"
proof -
  have "takeWhile P (a @ x # r) = a" "takeWhile P (a' @ x' # r') = a'"
    using assms(1-4) by (simp_all add: takeWhile_append2)
  then have "a = a'" using assms(5) by simp
  then show ?thesis using assms(5) by simp
qed

text \<open>
  The keys of the three placeholders of a day are different for different days, fields
  and weeks, whatever the name of the day.
\<close>

lemma placeholder_ART_eq:
  assumes "f = ''INHALT'' \<or> f = ''STUNDEN'' \<or> f = ''ART''"
  shows "placeholder d' f k' = placeholder d ''ART'' k \<longleftrightarrow> d' = d \<and> f = ''ART'' \<and> k' = k"
proof
  assume eq: "placeholder d' f k' = placeholder d ''ART'' k"
  let ?P = "\<lambda>c. is_digit c \<or> c = CHR ''-''"
  have P: "\<forall>c \<in> set (rev (show_int n)). ?P c" for n
    using show_int_chars by auto
  have nP: "\<not> ?P CHR ''T''" "\<not> ?P CHR ''N''" by (simp_all add: is_digit_def)
  from eq have "rev (placeholder d' f k') = rev (placeholder d ''ART'' k)" by simp
  then have r: "rev (show_int k') @ rev f @ CHR ''_'' # rev d'
      = rev (show_int k) @ CHR ''T'' # CHR ''R'' # CHR ''A'' # CHR ''_'' # rev d"
    by (simp add: placeholder_def)
  from assms show "d' = d \<and> f = ''ART'' \<and> k' = k"
  proof (elim disjE)
    assume f: "f = ''INHALT''"
    from r have "rev (show_int k') @ CHR ''T'' # (''LAHNI_'' @ rev d')
      = rev (show_int k) @ CHR ''T'' # (''RA_'' @ rev d)" by (simp add: f)
    from numeric_suffix_unique [OF P P nP(1) nP(1) this] show ?thesis by simp
  next
    assume f: "f = ''STUNDEN''"
    from r have "rev (show_int k') @ CHR ''N'' # (''EDNUTS_'' @ rev d')
      = rev (show_int k) @ CHR ''T'' # (''RA_'' @ rev d)" by (simp add: f)
    from numeric_suffix_unique [OF P P nP(2) nP(1) this] show ?thesis by simp
  next
    assume f: "f = ''ART''"
    from r have "rev (show_int k') @ CHR ''T'' # (''RA_'' @ rev d')
      = rev (show_int k) @ CHR ''T'' # (''RA_'' @ rev d)" by (simp add: f)
    from numeric_suffix_unique [OF P P nP(1) nP(1) this]
    have "show_int k' = show_int k" "d' = d" by simp_all
    then show ?thesis using f show_int_inj by blast
  qed
next
  assume "d' = d \<and> f = ''ART'' \<and> k' = k"
  then show "placeholder d' f k' = placeholder d ''ART'' k" by simp
qed

lemma substituted_append: "substituted key (xs @ ys) = substituted key xs @ substituted key ys"
  by (induction key xs rule: substituted.induct) simp_all

lemma override_first_frame:
  assumes "list_all2 entry_frame es es'" and "list_all has_keys es"
  shows "override_type (first_for_day d es') = override_type (first_for_day d es)"
  using assms
proof (induction rule: list_all2_induct)
  case Nil
  show ?case by simp
next
  case (Cons e es e' es')
  have k: "has_keys e" "list_all has_keys es" using Cons.prems by simp_all
  have f: "fst e' = fst e" using Cons.hyps(1) by (simp add: entry_frame_def)
  show ?case
  proof (cases "fst e = d")
    case True
    have "override_type (snd e') = override_type (snd e)"
      using Cons.hyps(1) k(1)
      by (auto simp: entry_frame_def override_type_def has_keys_def get_or_empty_def)
    then show ?thesis using True f by (cases e; cases e') (simp add: first_for_day_def)
  next
    case False
    then show ?thesis
      using Cons.IH [OF k(2)] f by (cases e; cases e') (simp add: first_for_day_def)
  qed
qed

text \<open>The values substituted for the type placeholder of a day and week, loop by loop.\<close>

lemma process_day_types:
  assumes "process_day st c week y (es, calls) = Inr (es', calls')"
  shows "substituted (placeholder d ''ART'' k) calls' =
     substituted (placeholder d ''ART'' k) calls
       @ (if y = d \<and> week = k then [override_type (first_for_day d es)] else [])"
proof -
  have "\<exists>h. calls' = calls @
     [Replace c (placeholder y ''INHALT'' week)
        (format_content (get_or_empty (Inhalt (first_for_day y es)))),
      Replace c (placeholder y ''STUNDEN'' week) h,
      Replace c (placeholder y ''ART'' week) (override_type (first_for_day y es))]"
  proof (cases "find_day y es")
    case None
    from assms None obtain dd cs where
      r: "replace_placeholders_for_day st c y week empty_data = Inr (dd, cs)"
      and c: "calls' = calls @ cs"
      by (auto simp: process_day_def split: sum.splits)
    show ?thesis
      using replace_placeholders_for_day_Inr [OF r] c None by (auto simp: first_for_day_find_day)
  next
    case (Some i)
    from assms Some obtain dd cs where
      r: "replace_placeholders_for_day st c y week (snd (es ! i)) = Inr (dd, cs)"
      and c: "calls' = calls @ cs"
      by (auto simp: process_day_def split: sum.splits)
    show ?thesis
      using replace_placeholders_for_day_Inr [OF r] c Some by (auto simp: first_for_day_find_day)
  qed
  then obtain h where c: "calls' = calls @
     [Replace c (placeholder y ''INHALT'' week)
        (format_content (get_or_empty (Inhalt (first_for_day y es)))),
      Replace c (placeholder y ''STUNDEN'' week) h,
      Replace c (placeholder y ''ART'' week) (override_type (first_for_day y es))]"
    by blast
  show ?thesis
    unfolding c substituted_append
    by (auto simp: placeholder_ART_eq)
qed

lemma process_days_types:
  assumes "for_each (process_day st c week) ds (es, calls) = Inr (es', calls')"
    and "list_all has_keys es"
  shows "substituted (placeholder d ''ART'' k) calls' =
     substituted (placeholder d ''ART'' k) calls
       @ replicate (if week = k then count_list ds d else 0) (override_type (first_for_day d es))"
  using assms
proof (induction ds arbitrary: es calls)
  case Nil
  then show ?case by simp
next
  case (Cons y ds)
  from Cons.prems(1) obtain es1 calls1 where
    step: "process_day st c week y (es, calls) = Inr (es1, calls1)"
    and rest: "for_each (process_day st c week) ds (es1, calls1) = Inr (es', calls')"
    by (auto split: sum.splits)
  have frame: "list_all2 entry_frame es es1"
    by (rule process_day_frame [OF step Cons.prems(2)])
  have keys: "list_all has_keys es1"
    using frame Cons.prems(2) by (rule bucket_frame_has_keys)
  have same: "override_type (first_for_day d es1) = override_type (first_for_day d es)"
    by (rule override_first_frame [OF frame Cons.prems(2)])
  show ?case
    unfolding Cons.IH [OF rest keys] process_day_types [OF step] same
    by (simp add: replicate_append_same)
qed

lemma process_cell_types:
  assumes "process_cell cfg st week gp c (es, calls) = Inr (es', calls')"
    and "list_all has_keys es"
  shows "substituted (placeholder d ''ART'' k) calls' =
     substituted (placeholder d ''ART'' k) calls
       @ replicate (if week = k then count_list (days cfg) d else 0)
           (override_type (first_for_day d es))"
proof -
  have loop: "for_each (process_day st c week) (days cfg) (es, calls @ [ReplaceGeneral c gp])
      = Inr (es', calls')"
    using assms(1) by (simp add: process_cell_def)
  show ?thesis
    unfolding process_days_types [OF loop assms(2)] by (simp add: substituted_append)
qed

lemma process_cells_types:
  assumes "for_each (process_cell cfg st week gp) cells (es, calls) = Inr (es', calls')"
    and "list_all has_keys es"
  shows "substituted (placeholder d ''ART'' k) calls' =
     substituted (placeholder d ''ART'' k) calls
       @ replicate (if week = k then length cells * count_list (days cfg) d else 0)
           (override_type (first_for_day d es))"
  using assms
proof (induction cells arbitrary: es calls)
  case Nil
  then show ?case by simp
next
  case (Cons c cells)
  from Cons.prems(1) obtain es1 calls1 where
    step: "process_cell cfg st week gp c (es, calls) = Inr (es1, calls1)"
    and rest: "for_each (process_cell cfg st week gp) cells (es1, calls1) = Inr (es', calls')"
    by (auto split: sum.splits)
  have frame: "list_all2 entry_frame es es1"
    by (rule process_cell_frame [OF step Cons.prems(2), THEN conjunct1])
  have keys: "list_all has_keys es1"
    using frame Cons.prems(2) by (rule bucket_frame_has_keys)
  have same: "override_type (first_for_day d es1) = override_type (first_for_day d es)"
    by (rule override_first_frame [OF frame Cons.prems(2)])
  show ?case
    unfolding Cons.IH [OF rest keys] process_cell_types [OF step Cons.prems(2)] same
    by (simp add: replicate_add)
qed

lemma process_week_placeholders_types:
  assumes "process_week_placeholders cfg st rows cells week (es, calls) = Inr (es', calls')"
    and "list_all has_keys es"
  shows "substituted (placeholder d ''ART'' k) calls' =
     substituted (placeholder d ''ART'' k) calls
       @ replicate (if week = k then length cells * count_list (days cfg) d else 0)
           (override_type (first_for_day d es))"
proof -
  from assms(1) obtain gp where
    loop: "for_each (process_cell cfg st week gp) cells (es, calls @ [ProcessWeek week])
      = Inr (es', calls')"
    by (auto simp: process_week_placeholders_def Let_def split: list.splits sum.splits)
  show ?thesis
    unfolding process_cells_types [OF loop assms(2)] by (simp add: substituted_append)
qed

lemma process_weeks_types:
  assumes "process_weeks cfg st rows cells wd calls = Inr (wd', calls')"
    and "\<forall>b \<in> set wd. list_all has_keys (snd b)" and "distinct (map fst wd)"
  shows "substituted (placeholder d ''ART'' k) calls' =
     substituted (placeholder d ''ART'' k) calls
       @ replicate (if k \<in> fst ` set wd then length cells * count_list (days cfg) d else 0)
           (override_type (first_for_day d (bucket wd k)))"
  using assms
proof (induction wd arbitrary: calls wd')
  case Nil
  then show ?case by simp
next
  case (Cons b wd)
  obtain week es where b: "b = (week, es)" by (cases b)
  from Cons.prems(1) obtain es1 calls1 rest' where
    step: "process_week_placeholders cfg st rows cells week (es, calls) = Inr (es1, calls1)"
    and rest: "process_weeks cfg st rows cells wd calls1 = Inr (rest', calls')"
    by (auto simp: b split: sum.splits)
  have keys: "list_all has_keys es" "\<forall>b \<in> set wd. list_all has_keys (snd b)"
    using Cons.prems(2) by (simp_all add: b)
  have dist: "distinct (map fst wd)" "week \<notin> fst ` set wd"
    using Cons.prems(3) by (simp_all add: b)
  show ?case
  proof (cases "week = k")
    case True
    then have "k \<notin> fst ` set wd" using dist(2) by simp
    then show ?thesis
      unfolding Cons.IH [OF rest keys(2) dist(1)] process_week_placeholders_types [OF step keys(1)]
      using True by (simp add: b bucket_def)
  next
    case False
    then show ?thesis
      unfolding Cons.IH [OF rest keys(2) dist(1)] process_week_placeholders_types [OF step keys(1)]
      by (simp add: b bucket_def)
  qed
qed

text \<open>The first entry of a bucket for a day, in terms of the rows of the table.\<close>

lemma map_of_row_entries:
  "map_of (map (row_entry cfg) rs) d
     = map_option (\<lambda>r. snd (row_entry cfg r)) (find (\<lambda>r. upper (Tag r) = d) rs)"
  by (induction rs) (simp_all add: row_entry_def)

lemma map_of_empty_entries:
  "map_of (map empty_entry ms) d = (if d \<in> set ms then Some (snd (empty_entry d)) else None)"
  by (induction ms) (simp_all add: empty_entry_def)

lemma set_missing_days: "set (missing_days cfg es) = set (days cfg) - fst ` set es"
  by (auto simp: missing_days_def Let_def)

lemma first_for_day_initialize:
  assumes "initialize_weeks_data cfg rows = Inr (wd, lg)" and "k \<in> fst ` set wd"
  shows "first_for_day d (bucket wd k) =
     (case find (\<lambda>r. upper (Tag r) = d) (rows_of_week rows k) of
        Some r \<Rightarrow> snd (row_entry cfg r)
      | None \<Rightarrow> if d \<in> set (days cfg) then snd (empty_entry d) else empty_data)"
proof -
  let ?es = "map (row_entry cfg) (rows_of_week rows k)"
  from assms(2) obtain es where "(k, es) \<in> set wd" by auto
  then have "rows_of_week rows k \<noteq> []" using mem_initialize [OF assms(1)] by blast
  then have b: "bucket wd k = ?es @ map empty_entry (missing_days cfg ?es)"
    by (simp add: bucket_initialize [OF assms(1)] fill_entries_def)
  show ?thesis
  proof (cases "find (\<lambda>r. upper (Tag r) = d) (rows_of_week rows k)")
    case None
    then have n: "map_of ?es d = None" by (simp add: map_of_row_entries)
    then have "d \<notin> fst ` set ?es" by (simp add: map_of_eq_None_iff)
    then have "d \<in> set (missing_days cfg ?es) \<longleftrightarrow> d \<in> set (days cfg)"
      by (simp add: set_missing_days)
    then show ?thesis
      unfolding b first_for_day_def map_of_append map_add_def
      by (simp add: n None map_of_empty_entries)
  next
    case (Some r)
    then have "map_of ?es d = Some (snd (row_entry cfg r))" by (simp add: map_of_row_entries)
    then show ?thesis
      unfolding b first_for_day_def map_of_append map_add_def by (simp add: Some)
  qed
qed

lemma replace_placeholders_for_day_type:
  assumes "replace_placeholders_for_day st c day week dd = Inr (dd', cs)"
  shows "substituted (placeholder day ''ART'' week) cs = [override_type dd]"
proof -
  from replace_placeholders_for_day_Inr [OF assms] obtain h where
    cs: "cs = [Replace c (placeholder day ''INHALT'' week) (format_content (get_or_empty (Inhalt dd))),
               Replace c (placeholder day ''STUNDEN'' week) h,
               Replace c (placeholder day ''ART'' week) (override_type dd)]"
    by blast
  show ?thesis
    unfolding cs by (simp add: placeholder_ART_eq)
qed

text \<open>
  C6, as the code has it. The type placeholder of a day and week receives the type of the
  first entry of the week's bucket for that day, and of no other entry. In a run that
  completes, for every week \<open>k\<close> of \<open>weeks_data\<close> and every day name \<open>d\<close>, the values
  substituted for \<^verbatim>\<open>{d_ARTk}\<close> are one per cell and occurrence of \<open>d\<close> among the
  configured days, and each of them is the override literal when the content of that
  first entry holds the school marker, whatever type the entry carries, and the type of
  that first entry otherwise. The first entry is that of the first row of the week with
  that day name; a configured day without a row has the filled-in entry. Entries after
  the first for a day are not looked at. For one call of
  \<open>replace_placeholders_for_day\<close>, the value substituted is decided in the same way by
  the dictionary the call is given.
\<close>

theorem first_entry_decides_type:
  assumes "new_processor cfg st rows = Inr (p, lg)"
    and "process_all_weeks cfg cells p = Inr (p', calls)"
    and "k \<in> fst ` set (weeks_data p)"
  shows "substituted (placeholder d ''ART'' k) calls
           = replicate (length cells * count_list (days cfg) d)
               (if contains school_marker
                     (get_or_empty (Inhalt (first_for_day d (bucket (weeks_data p) k))))
                then ''Berufsschule''
                else get_or_empty (Art (first_for_day d (bucket (weeks_data p) k))))
       \<and> first_for_day d (bucket (weeks_data p) k) =
           (case find (\<lambda>r. upper (Tag r) = d) (rows_of_week rows k) of
              Some r \<Rightarrow> snd (row_entry cfg r)
            | None \<Rightarrow> if d \<in> set (days cfg) then snd (empty_entry d) else empty_data)
       \<and> (\<forall>c day week dd dd' cs.
             replace_placeholders_for_day st c day week dd = Inr (dd', cs) \<longrightarrow>
             substituted (placeholder day ''ART'' week) cs =
               [if contains school_marker (get_or_empty (Inhalt dd)) then ''Berufsschule''
                else get_or_empty (Art dd)])"
proof -
  have init: "initialize_weeks_data cfg rows = Inr (weeks_data p, lg)"
    by (rule new_processor_Inr(1) [OF assms(1)])
  from assms(2) obtain wd' where
    run: "process_weeks cfg (settings p) (data p) cells (weeks_data p) [] = Inr (wd', calls)"
    by (auto simp: process_all_weeks_def split: sum.splits)
  have "substituted (placeholder d ''ART'' k) calls
           = replicate (length cells * count_list (days cfg) d)
               (override_type (first_for_day d (bucket (weeks_data p) k)))"
    using process_weeks_types [OF run initialize_has_keys [OF init] initialize_distinct [OF init],
        of d k] assms(3)
    by simp
  moreover note first_for_day_initialize [OF init assms(3), of d]
  moreover have "\<forall>c day week dd dd' cs.
             replace_placeholders_for_day st c day week dd = Inr (dd', cs) \<longrightarrow>
             substituted (placeholder day ''ART'' week) cs = [override_type dd]"
    using replace_placeholders_for_day_type by blast
  ultimately show ?thesis unfolding override_type_def by blast
qed

theorem first_entry_decides_type_witness:
  "new_processor (mk_config [''MONTAG'', ''DIENSTAG''] [(''PLANUNG'', ''Betrieb'')])
       (map_of [(''default_hours'', ''8'')])
       [mk_row ''01.04.2024'' ''Montag'' ''Planung'' (Some ''Berufsschule Mathe''),
        mk_row ''02.04.2024'' ''Dienstag'' ''Planung'' (Some ''Doku'')]
     = Inr (mk_processor [(''default_hours'', ''8'')]
              [mk_row ''01.04.2024'' ''Montag'' ''Planung'' (Some ''Berufsschule Mathe''),
               mk_row ''02.04.2024'' ''Dienstag'' ''Planung'' (Some ''Doku'')]
              [(1, [(''MONTAG'', mk_data ''Betrieb'' ''Berufsschule Mathe''),
                    (''DIENSTAG'', mk_data ''Betrieb'' ''Doku'')])], [])
   \<and> process_all_weeks (mk_config [''MONTAG'', ''DIENSTAG''] [(''PLANUNG'', ''Betrieb'')]) [0]
          (mk_processor [(''default_hours'', ''8'')]
              [mk_row ''01.04.2024'' ''Montag'' ''Planung'' (Some ''Berufsschule Mathe''),
               mk_row ''02.04.2024'' ''Dienstag'' ''Planung'' (Some ''Doku'')]
              [(1, [(''MONTAG'', mk_data ''Betrieb'' ''Berufsschule Mathe''),
                    (''DIENSTAG'', mk_data ''Betrieb'' ''Doku'')])])
     = Inr (mk_processor [(''default_hours'', ''8'')]
              [mk_row ''01.04.2024'' ''Montag'' ''Planung'' (Some ''Berufsschule Mathe''),
               mk_row ''02.04.2024'' ''Dienstag'' ''Planung'' (Some ''Doku'')]
              [(1, [(''MONTAG'', mk_data ''Berufsschule'' ''Berufsschule Mathe''),
                    (''DIENSTAG'', mk_data ''Betrieb'' ''Doku'')])],
            [ProcessWeek 1,
             ReplaceGeneral 0 [(''{NAME}'', ''N/A''), (''{ABJ}'', ''N/A''),
               (''{DATUM_START1}'', ''01.04.2024''), (''{DATUM_ENDE1}'', ''05.04.2024'')],
             Replace 0 ''{MONTAG_INHALT1}'' ''-   Mathe'',
             Replace 0 ''{MONTAG_STUNDEN1}'' ''8'',
             Replace 0 ''{MONTAG_ART1}'' ''Berufsschule'',
             Replace 0 ''{DIENSTAG_INHALT1}'' ''-   Doku'',
             Replace 0 ''{DIENSTAG_STUNDEN1}'' ''8'',
             Replace 0 ''{DIENSTAG_ART1}'' ''Betrieb''])
   \<and> substituted (placeholder ''MONTAG'' ''ART'' 1)
            [ProcessWeek 1,
             ReplaceGeneral 0 [(''{NAME}'', ''N/A''), (''{ABJ}'', ''N/A''),
               (''{DATUM_START1}'', ''01.04.2024''), (''{DATUM_ENDE1}'', ''05.04.2024'')],
             Replace 0 ''{MONTAG_INHALT1}'' ''-   Mathe'',
             Replace 0 ''{MONTAG_STUNDEN1}'' ''8'',
             Replace 0 ''{MONTAG_ART1}'' ''Berufsschule'',
             Replace 0 ''{DIENSTAG_INHALT1}'' ''-   Doku'',
             Replace 0 ''{DIENSTAG_STUNDEN1}'' ''8'',
             Replace 0 ''{DIENSTAG_ART1}'' ''Betrieb''] = [''Berufsschule'']
   \<and> substituted (placeholder ''DIENSTAG'' ''ART'' 1)
            [ProcessWeek 1,
             ReplaceGeneral 0 [(''{NAME}'', ''N/A''), (''{ABJ}'', ''N/A''),
               (''{DATUM_START1}'', ''01.04.2024''), (''{DATUM_ENDE1}'', ''05.04.2024'')],
             Replace 0 ''{MONTAG_INHALT1}'' ''-   Mathe'',
             Replace 0 ''{MONTAG_STUNDEN1}'' ''8'',
             Replace 0 ''{MONTAG_ART1}'' ''Berufsschule'',
             Replace 0 ''{DIENSTAG_INHALT1}'' ''-   Doku'',
             Replace 0 ''{DIENSTAG_STUNDEN1}'' ''8'',
             Replace 0 ''{DIENSTAG_ART1}'' ''Betrieb''] = [''Betrieb'']"
proof -
  have "initialize_weeks_data (mk_config [''MONTAG'', ''DIENSTAG''] [(''PLANUNG'', ''Betrieb'')])
       [mk_row ''01.04.2024'' ''Montag'' ''Planung'' (Some ''Berufsschule Mathe''),
        mk_row ''02.04.2024'' ''Dienstag'' ''Planung'' (Some ''Doku'')]
     = Inr ([(1, [(''MONTAG'', mk_data ''Betrieb'' ''Berufsschule Mathe''),
                  (''DIENSTAG'', mk_data ''Betrieb'' ''Doku'')])], [])"
    by code_simp
  then have a: "new_processor (mk_config [''MONTAG'', ''DIENSTAG''] [(''PLANUNG'', ''Betrieb'')])
       (map_of [(''default_hours'', ''8'')])
       [mk_row ''01.04.2024'' ''Montag'' ''Planung'' (Some ''Berufsschule Mathe''),
        mk_row ''02.04.2024'' ''Dienstag'' ''Planung'' (Some ''Doku'')]
     = Inr (mk_processor [(''default_hours'', ''8'')]
              [mk_row ''01.04.2024'' ''Montag'' ''Planung'' (Some ''Berufsschule Mathe''),
               mk_row ''02.04.2024'' ''Dienstag'' ''Planung'' (Some ''Doku'')]
              [(1, [(''MONTAG'', mk_data ''Betrieb'' ''Berufsschule Mathe''),
                    (''DIENSTAG'', mk_data ''Betrieb'' ''Doku'')])], [])"
    by (simp add: new_processor_def)
  have "process_weeks (mk_config [''MONTAG'', ''DIENSTAG''] [(''PLANUNG'', ''Betrieb'')])
          (map_of [(''default_hours'', ''8'')])
          [mk_row ''01.04.2024'' ''Montag'' ''Planung'' (Some ''Berufsschule Mathe''),
           mk_row ''02.04.2024'' ''Dienstag'' ''Planung'' (Some ''Doku'')] [0]
          [(1, [(''MONTAG'', mk_data ''Betrieb'' ''Berufsschule Mathe''),
                (''DIENSTAG'', mk_data ''Betrieb'' ''Doku'')])] []
     = Inr ([(1, [(''MONTAG'', mk_data ''Berufsschule'' ''Berufsschule Mathe''),
                  (''DIENSTAG'', mk_data ''Betrieb'' ''Doku'')])],
            [ProcessWeek 1,
             ReplaceGeneral 0 [(''{NAME}'', ''N/A''), (''{ABJ}'', ''N/A''),
               (''{DATUM_START1}'', ''01.04.2024''), (''{DATUM_ENDE1}'', ''05.04.2024'')],
             Replace 0 ''{MONTAG_INHALT1}'' ''-   Mathe'',
             Replace 0 ''{MONTAG_STUNDEN1}'' ''8'',
             Replace 0 ''{MONTAG_ART1}'' ''Berufsschule'',
             Replace 0 ''{DIENSTAG_INHALT1}'' ''-   Doku'',
             Replace 0 ''{DIENSTAG_STUNDEN1}'' ''8'',
             Replace 0 ''{DIENSTAG_ART1}'' ''Betrieb''])"
    by code_simp
  then have b: "process_all_weeks (mk_config [''MONTAG'', ''DIENSTAG''] [(''PLANUNG'', ''Betrieb'')]) [0]
          (mk_processor [(''default_hours'', ''8'')]
              [mk_row ''01.04.2024'' ''Montag'' ''Planung'' (Some ''Berufsschule Mathe''),
               mk_row ''02.04.2024'' ''Dienstag'' ''Planung'' (Some ''Doku'')]
              [(1, [(''MONTAG'', mk_data ''Betrieb'' ''Berufsschule Mathe''),
                    (''DIENSTAG'', mk_data ''Betrieb'' ''Doku'')])])
     = Inr (mk_processor [(''default_hours'', ''8'')]
              [mk_row ''01.04.2024'' ''Montag'' ''Planung'' (Some ''Berufsschule Mathe''),
               mk_row ''02.04.2024'' ''Dienstag'' ''Planung'' (Some ''Doku'')]
              [(1, [(''MONTAG'', mk_data ''Berufsschule'' ''Berufsschule Mathe''),
                    (''DIENSTAG'', mk_data ''Betrieb'' ''Doku'')])],
            [ProcessWeek 1,
             ReplaceGeneral 0 [(''{NAME}'', ''N/A''), (''{ABJ}'', ''N/A''),
               (''{DATUM_START1}'', ''01.04.2024''), (''{DATUM_ENDE1}'', ''05.04.2024'')],
             Replace 0 ''{MONTAG_INHALT1}'' ''-   Mathe'',
             Replace 0 ''{MONTAG_STUNDEN1}'' ''8'',
             Replace 0 ''{MONTAG_ART1}'' ''Berufsschule'',
             Replace 0 ''{DIENSTAG_INHALT1}'' ''-   Doku'',
             Replace 0 ''{DIENSTAG_STUNDEN1}'' ''8'',
             Replace 0 ''{DIENSTAG_ART1}'' ''Betrieb''])"
    by (simp add: process_all_weeks_def)
  have k: "1 \<in> fst ` set (weeks_data (mk_processor [(''default_hours'', ''8'')]
              [mk_row ''01.04.2024'' ''Montag'' ''Planung'' (Some ''Berufsschule Mathe''),
               mk_row ''02.04.2024'' ''Dienstag'' ''Planung'' (Some ''Doku'')]
              [(1, [(''MONTAG'', mk_data ''Betrieb'' ''Berufsschule Mathe''),
                    (''DIENSTAG'', mk_data ''Betrieb'' ''Doku'')])]))"
    by simp
  have m: "replicate (length [0::nat] * count_list [''MONTAG'', ''DIENSTAG''] ''MONTAG'')
       (if contains school_marker (get_or_empty (Inhalt (first_for_day ''MONTAG''
              (bucket [(1, [(''MONTAG'', mk_data ''Betrieb'' ''Berufsschule Mathe''),
                            (''DIENSTAG'', mk_data ''Betrieb'' ''Doku'')])] 1))))
        then ''Berufsschule''
        else get_or_empty (Art (first_for_day ''MONTAG''
              (bucket [(1, [(''MONTAG'', mk_data ''Betrieb'' ''Berufsschule Mathe''),
                            (''DIENSTAG'', mk_data ''Betrieb'' ''Doku'')])] 1))))
     = [''Berufsschule'']"
    by code_simp
  have t: "replicate (length [0::nat] * count_list [''MONTAG'', ''DIENSTAG''] ''DIENSTAG'')
       (if contains school_marker (get_or_empty (Inhalt (first_for_day ''DIENSTAG''
              (bucket [(1, [(''MONTAG'', mk_data ''Betrieb'' ''Berufsschule Mathe''),
                            (''DIENSTAG'', mk_data ''Betrieb'' ''Doku'')])] 1))))
        then ''Berufsschule''
        else get_or_empty (Art (first_for_day ''DIENSTAG''
              (bucket [(1, [(''MONTAG'', mk_data ''Betrieb'' ''Berufsschule Mathe''),
                            (''DIENSTAG'', mk_data ''Betrieb'' ''Doku'')])] 1))))
     = [''Betrieb'']"
    by code_simp
  have "substituted (placeholder ''MONTAG'' ''ART'' 1)
            [ProcessWeek 1,
             ReplaceGeneral 0 [(''{NAME}'', ''N/A''), (''{ABJ}'', ''N/A''),
               (''{DATUM_START1}'', ''01.04.2024''), (''{DATUM_ENDE1}'', ''05.04.2024'')],
             Replace 0 ''{MONTAG_INHALT1}'' ''-   Mathe'',
             Replace 0 ''{MONTAG_STUNDEN1}'' ''8'',
             Replace 0 ''{MONTAG_ART1}'' ''Berufsschule'',
             Replace 0 ''{DIENSTAG_INHALT1}'' ''-   Doku'',
             Replace 0 ''{DIENSTAG_STUNDEN1}'' ''8'',
             Replace 0 ''{DIENSTAG_ART1}'' ''Betrieb'']
     = replicate (length [0::nat] * count_list [''MONTAG'', ''DIENSTAG''] ''MONTAG'')
       (if contains school_marker (get_or_empty (Inhalt (first_for_day ''MONTAG''
              (bucket [(1, [(''MONTAG'', mk_data ''Betrieb'' ''Berufsschule Mathe''),
                            (''DIENSTAG'', mk_data ''Betrieb'' ''Doku'')])] 1))))
        then ''Berufsschule''
        else get_or_empty (Art (first_for_day ''MONTAG''
              (bucket [(1, [(''MONTAG'', mk_data ''Betrieb'' ''Berufsschule Mathe''),
                            (''DIENSTAG'', mk_data ''Betrieb'' ''Doku'')])] 1))))"
    using first_entry_decides_type [OF a b k, of "''MONTAG''", THEN conjunct1] by simp
  then have 1: "substituted (placeholder ''MONTAG'' ''ART'' 1)
            [ProcessWeek 1,
             ReplaceGeneral 0 [(''{NAME}'', ''N/A''), (''{ABJ}'', ''N/A''),
               (''{DATUM_START1}'', ''01.04.2024''), (''{DATUM_ENDE1}'', ''05.04.2024'')],
             Replace 0 ''{MONTAG_INHALT1}'' ''-   Mathe'',
             Replace 0 ''{MONTAG_STUNDEN1}'' ''8'',
             Replace 0 ''{MONTAG_ART1}'' ''Berufsschule'',
             Replace 0 ''{DIENSTAG_INHALT1}'' ''-   Doku'',
             Replace 0 ''{DIENSTAG_STUNDEN1}'' ''8'',
             Replace 0 ''{DIENSTAG_ART1}'' ''Betrieb''] = [''Berufsschule'']"
    using m by (rule trans)
  have "substituted (placeholder ''DIENSTAG'' ''ART'' 1)
            [ProcessWeek 1,
             ReplaceGeneral 0 [(''{NAME}'', ''N/A''), (''{ABJ}'', ''N/A''),
               (''{DATUM_START1}'', ''01.04.2024''), (''{DATUM_ENDE1}'', ''05.04.2024'')],
             Replace 0 ''{MONTAG_INHALT1}'' ''-   Mathe'',
             Replace 0 ''{MONTAG_STUNDEN1}'' ''8'',
             Replace 0 ''{MONTAG_ART1}'' ''Berufsschule'',
             Replace 0 ''{DIENSTAG_INHALT1}'' ''-   Doku'',
             Replace 0 ''{DIENSTAG_STUNDEN1}'' ''8'',
             Replace 0 ''{DIENSTAG_ART1}'' ''Betrieb'']
     = replicate (length [0::nat] * count_list [''MONTAG'', ''DIENSTAG''] ''DIENSTAG'')
       (if contains school_marker (get_or_empty (Inhalt (first_for_day ''DIENSTAG''
              (bucket [(1, [(''MONTAG'', mk_data ''Betrieb'' ''Berufsschule Mathe''),
                            (''DIENSTAG'', mk_data ''Betrieb'' ''Doku'')])] 1))))
        then ''Berufsschule''
        else get_or_empty (Art (first_for_day ''DIENSTAG''
              (bucket [(1, [(''MONTAG'', mk_data ''Betrieb'' ''Berufsschule Mathe''),
                            (''DIENSTAG'', mk_data ''Betrieb'' ''Doku'')])] 1))))"
    using first_entry_decides_type [OF a b k, of "''DIENSTAG''", THEN conjunct1] by simp
  then have 2: "substituted (placeholder ''DIENSTAG'' ''ART'' 1)
            [ProcessWeek 1,
             ReplaceGeneral 0 [(''{NAME}'', ''N/A''), (''{ABJ}'', ''N/A''),
               (''{DATUM_START1}'', ''01.04.2024''), (''{DATUM_ENDE1}'', ''05.04.2024'')],
             Replace 0 ''{MONTAG_INHALT1}'' ''-   Mathe'',
             Replace 0 ''{MONTAG_STUNDEN1}'' ''8'',
             Replace 0 ''{MONTAG_ART1}'' ''Berufsschule'',
             Replace 0 ''{DIENSTAG_INHALT1}'' ''-   Doku'',
             Replace 0 ''{DIENSTAG_STUNDEN1}'' ''8'',
             Replace 0 ''{DIENSTAG_ART1}'' ''Betrieb''] = [''Betrieb'']"
    using t by (rule trans)
  from a b 1 2 show ?thesis by (intro conjI)
qed

text \<open>
  C6 as stated fails for an entry that is not the first of its day. Two rows of one week
  name the Monday; the content of the second holds the school marker. Its entry lies in
  the bucket, yet the one value substituted for the type placeholder of the Monday is the
  type of the first entry, and the override literal is not substituted.
\<close>

theorem later_marker_entry_counterexample:
  "new_processor (mk_config [''MONTAG''] []) (map_of [(''default_hours'', ''8'')])
       [mk_row ''01.04.2024'' ''Montag'' ''Planung'' (Some ''Doku''),
        mk_row ''01.04.2024'' ''Montag'' ''Unterricht'' (Some ''Berufsschule Mathe'')]
     = Inr (mk_processor [(''default_hours'', ''8'')]
              [mk_row ''01.04.2024'' ''Montag'' ''Planung'' (Some ''Doku''),
               mk_row ''01.04.2024'' ''Montag'' ''Unterricht'' (Some ''Berufsschule Mathe'')]
              [(1, [(''MONTAG'', mk_data ''TAETIGKEIT_UNBEKANNT'' ''Doku''),
                    (''MONTAG'', mk_data ''TAETIGKEIT_UNBEKANNT'' ''Berufsschule Mathe'')])], [])
   \<and> contains school_marker ''Berufsschule Mathe''
   \<and> map_sum id snd
       (process_all_weeks (mk_config [''MONTAG''] []) [0]
          (mk_processor [(''default_hours'', ''8'')]
              [mk_row ''01.04.2024'' ''Montag'' ''Planung'' (Some ''Doku''),
               mk_row ''01.04.2024'' ''Montag'' ''Unterricht'' (Some ''Berufsschule Mathe'')]
              [(1, [(''MONTAG'', mk_data ''TAETIGKEIT_UNBEKANNT'' ''Doku''),
                    (''MONTAG'', mk_data ''TAETIGKEIT_UNBEKANNT'' ''Berufsschule Mathe'')])]))
     = Inr [ProcessWeek 1,
            ReplaceGeneral 0 [(''{NAME}'', ''N/A''), (''{ABJ}'', ''N/A''),
              (''{DATUM_START1}'', ''01.04.2024''), (''{DATUM_ENDE1}'', ''05.04.2024'')],
            Replace 0 ''{MONTAG_INHALT1}'' ''-   Doku'',
            Replace 0 ''{MONTAG_STUNDEN1}'' ''8'',
            Replace 0 ''{MONTAG_ART1}'' ''TAETIGKEIT_UNBEKANNT'']
   \<and> substituted (placeholder ''MONTAG'' ''ART'' 1)
           [ProcessWeek 1,
            ReplaceGeneral 0 [(''{NAME}'', ''N/A''), (''{ABJ}'', ''N/A''),
              (''{DATUM_START1}'', ''01.04.2024''), (''{DATUM_ENDE1}'', ''05.04.2024'')],
            Replace 0 ''{MONTAG_INHALT1}'' ''-   Doku'',
            Replace 0 ''{MONTAG_STUNDEN1}'' ''8'',
            Replace 0 ''{MONTAG_ART1}'' ''TAETIGKEIT_UNBEKANNT''] = [''TAETIGKEIT_UNBEKANNT'']"
proof -
  have "initialize_weeks_data (mk_config [''MONTAG''] [])
       [mk_row ''01.04.2024'' ''Montag'' ''Planung'' (Some ''Doku''),
        mk_row ''01.04.2024'' ''Montag'' ''Unterricht'' (Some ''Berufsschule Mathe'')]
     = Inr ([(1, [(''MONTAG'', mk_data ''TAETIGKEIT_UNBEKANNT'' ''Doku''),
                  (''MONTAG'', mk_data ''TAETIGKEIT_UNBEKANNT'' ''Berufsschule Mathe'')])], [])"
    by code_simp
  then have a: "new_processor (mk_config [''MONTAG''] []) (map_of [(''default_hours'', ''8'')])
       [mk_row ''01.04.2024'' ''Montag'' ''Planung'' (Some ''Doku''),
        mk_row ''01.04.2024'' ''Montag'' ''Unterricht'' (Some ''Berufsschule Mathe'')]
     = Inr (mk_processor [(''default_hours'', ''8'')]
              [mk_row ''01.04.2024'' ''Montag'' ''Planung'' (Some ''Doku''),
               mk_row ''01.04.2024'' ''Montag'' ''Unterricht'' (Some ''Berufsschule Mathe'')]
              [(1, [(''MONTAG'', mk_data ''TAETIGKEIT_UNBEKANNT'' ''Doku''),
                    (''MONTAG'', mk_data ''TAETIGKEIT_UNBEKANNT'' ''Berufsschule Mathe'')])], [])"
    by (simp add: new_processor_def)
  have b: "contains school_marker ''Berufsschule Mathe''" by code_simp
  have "map_sum id snd
       (process_weeks (mk_config [''MONTAG''] []) (map_of [(''default_hours'', ''8'')])
          [mk_row ''01.04.2024'' ''Montag'' ''Planung'' (Some ''Doku''),
           mk_row ''01.04.2024'' ''Montag'' ''Unterricht'' (Some ''Berufsschule Mathe'')] [0]
          [(1, [(''MONTAG'', mk_data ''TAETIGKEIT_UNBEKANNT'' ''Doku''),
                (''MONTAG'', mk_data ''TAETIGKEIT_UNBEKANNT'' ''Berufsschule Mathe'')])] [])
     = Inr [ProcessWeek 1,
            ReplaceGeneral 0 [(''{NAME}'', ''N/A''), (''{ABJ}'', ''N/A''),
              (''{DATUM_START1}'', ''01.04.2024''), (''{DATUM_ENDE1}'', ''05.04.2024'')],
            Replace 0 ''{MONTAG_INHALT1}'' ''-   Doku'',
            Replace 0 ''{MONTAG_STUNDEN1}'' ''8'',
            Replace 0 ''{MONTAG_ART1}'' ''TAETIGKEIT_UNBEKANNT'']"
    by code_simp
  then have c: "map_sum id snd
       (process_all_weeks (mk_config [''MONTAG''] []) [0]
          (mk_processor [(''default_hours'', ''8'')]
              [mk_row ''01.04.2024'' ''Montag'' ''Planung'' (Some ''Doku''),
               mk_row ''01.04.2024'' ''Montag'' ''Unterricht'' (Some ''Berufsschule Mathe'')]
              [(1, [(''MONTAG'', mk_data ''TAETIGKEIT_UNBEKANNT'' ''Doku''),
                    (''MONTAG'', mk_data ''TAETIGKEIT_UNBEKANNT'' ''Berufsschule Mathe'')])]))
     = Inr [ProcessWeek 1,
            ReplaceGeneral 0 [(''{NAME}'', ''N/A''), (''{ABJ}'', ''N/A''),
              (''{DATUM_START1}'', ''01.04.2024''), (''{DATUM_ENDE1}'', ''05.04.2024'')],
            Replace 0 ''{MONTAG_INHALT1}'' ''-   Doku'',
            Replace 0 ''{MONTAG_STUNDEN1}'' ''8'',
            Replace 0 ''{MONTAG_ART1}'' ''TAETIGKEIT_UNBEKANNT'']"
    by (auto simp: process_all_weeks_def split: sum.splits)
  have d: "substituted (placeholder ''MONTAG'' ''ART'' 1)
           [ProcessWeek 1,
            ReplaceGeneral 0 [(''{NAME}'', ''N/A''), (''{ABJ}'', ''N/A''),
              (''{DATUM_START1}'', ''01.04.2024''), (''{DATUM_ENDE1}'', ''05.04.2024'')],
            Replace 0 ''{MONTAG_INHALT1}'' ''-   Doku'',
            Replace 0 ''{MONTAG_STUNDEN1}'' ''8'',
            Replace 0 ''{MONTAG_ART1}'' ''TAETIGKEIT_UNBEKANNT''] = [''TAETIGKEIT_UNBEKANNT'']"
    by code_simp
  show ?thesis using a b c d by simp
qed

text \<open>
  C7, as the code has it. The weeks are visited in the order in which their relative
  week first occurs in the table, which is the order of the dict. When the week numbers
  of the rows never decrease along the table, this order is strictly increasing.
\<close>

theorem weeks_visited_in_insertion_order:
  assumes "new_processor cfg st rows = Inr (p, lg)"
    and "process_all_weeks cfg cells p = Inr (p', calls)"
  shows "visited_weeks calls = first_occurrences (map (relative_week (start_week_of rows)) rows)
       \<and> (sorted (map (\<lambda>r. fst (get_week (Datum r))) rows) \<longrightarrow> sorted_wrt (<) (visited_weeks calls))"
proof -
  note init = new_processor_Inr(1) [OF assms(1)]
  note run = process_all_weeks_Inr [OF assms(2)]
  have "visited_weeks calls = map fst (weeks_data p)"
    using process_weeks_frame [OF run(1) initialize_has_keys [OF init]] by simp
  then have v: "visited_weeks calls = first_occurrences (map (relative_week (start_week_of rows)) rows)"
    by (simp add: initialize_keys [OF init])
  have "sorted_wrt (<) (visited_weeks calls)"
    if s: "sorted (map (\<lambda>r. fst (get_week (Datum r))) rows)"
  proof -
    have "sorted (map (relative_week (start_week_of rows)) rows)"
      using s by (simp add: sorted_map relative_week_def)
    then show ?thesis
      unfolding v by (rule sorted_first_occurrences)
  qed
  then show ?thesis using v by blast
qed

theorem weeks_visited_in_insertion_order_witness:
  "new_processor (mk_config [''MONTAG''] []) (map_of [])
       [mk_row ''01.04.2024'' ''Montag'' ''Planung'' None,
        mk_row ''08.04.2024'' ''Montag'' ''Planung'' None]
     = Inr (mk_processor []
              [mk_row ''01.04.2024'' ''Montag'' ''Planung'' None,
               mk_row ''08.04.2024'' ''Montag'' ''Planung'' None]
              [(1, [(''MONTAG'', mk_data ''TAETIGKEIT_UNBEKANNT'' [])]),
               (2, [(''MONTAG'', mk_data ''TAETIGKEIT_UNBEKANNT'' [])])], [])
   \<and> process_all_weeks (mk_config [''MONTAG''] []) []
          (mk_processor []
              [mk_row ''01.04.2024'' ''Montag'' ''Planung'' None,
               mk_row ''08.04.2024'' ''Montag'' ''Planung'' None]
              [(1, [(''MONTAG'', mk_data ''TAETIGKEIT_UNBEKANNT'' [])]),
               (2, [(''MONTAG'', mk_data ''TAETIGKEIT_UNBEKANNT'' [])])])
     = Inr (mk_processor []
              [mk_row ''01.04.2024'' ''Montag'' ''Planung'' None,
               mk_row ''08.04.2024'' ''Montag'' ''Planung'' None]
              [(1, [(''MONTAG'', mk_data ''TAETIGKEIT_UNBEKANNT'' [])]),
               (2, [(''MONTAG'', mk_data ''TAETIGKEIT_UNBEKANNT'' [])])],
            [ProcessWeek 1, ProcessWeek 2])
   \<and> sorted_wrt (<) (visited_weeks [ProcessWeek 1, ProcessWeek 2])"
proof -
  have "initialize_weeks_data (mk_config [''MONTAG''] [])
       [mk_row ''01.04.2024'' ''Montag'' ''Planung'' None,
        mk_row ''08.04.2024'' ''Montag'' ''Planung'' None]
     = Inr ([(1, [(''MONTAG'', mk_data ''TAETIGKEIT_UNBEKANNT'' [])]),
             (2, [(''MONTAG'', mk_data ''TAETIGKEIT_UNBEKANNT'' [])])], [])"
    by code_simp
  then have a: "new_processor (mk_config [''MONTAG''] []) (map_of [])
       [mk_row ''01.04.2024'' ''Montag'' ''Planung'' None,
        mk_row ''08.04.2024'' ''Montag'' ''Planung'' None]
     = Inr (mk_processor []
              [mk_row ''01.04.2024'' ''Montag'' ''Planung'' None,
               mk_row ''08.04.2024'' ''Montag'' ''Planung'' None]
              [(1, [(''MONTAG'', mk_data ''TAETIGKEIT_UNBEKANNT'' [])]),
               (2, [(''MONTAG'', mk_data ''TAETIGKEIT_UNBEKANNT'' [])])], [])"
    by (simp add: new_processor_def)
  have "process_weeks (mk_config [''MONTAG''] []) (map_of [])
          [mk_row ''01.04.2024'' ''Montag'' ''Planung'' None,
           mk_row ''08.04.2024'' ''Montag'' ''Planung'' None] []
          [(1, [(''MONTAG'', mk_data ''TAETIGKEIT_UNBEKANNT'' [])]),
           (2, [(''MONTAG'', mk_data ''TAETIGKEIT_UNBEKANNT'' [])])] []
     = Inr ([(1, [(''MONTAG'', mk_data ''TAETIGKEIT_UNBEKANNT'' [])]),
             (2, [(''MONTAG'', mk_data ''TAETIGKEIT_UNBEKANNT'' [])])],
            [ProcessWeek 1, ProcessWeek 2])"
    by code_simp
  then have b: "process_all_weeks (mk_config [''MONTAG''] []) []
          (mk_processor []
              [mk_row ''01.04.2024'' ''Montag'' ''Planung'' None,
               mk_row ''08.04.2024'' ''Montag'' ''Planung'' None]
              [(1, [(''MONTAG'', mk_data ''TAETIGKEIT_UNBEKANNT'' [])]),
               (2, [(''MONTAG'', mk_data ''TAETIGKEIT_UNBEKANNT'' [])])])
     = Inr (mk_processor []
              [mk_row ''01.04.2024'' ''Montag'' ''Planung'' None,
               mk_row ''08.04.2024'' ''Montag'' ''Planung'' None]
              [(1, [(''MONTAG'', mk_data ''TAETIGKEIT_UNBEKANNT'' [])]),
               (2, [(''MONTAG'', mk_data ''TAETIGKEIT_UNBEKANNT'' [])])],
            [ProcessWeek 1, ProcessWeek 2])"
    by (simp add: process_all_weeks_def)
  have s: "sorted (map (\<lambda>r. fst (get_week (Datum r)))
       [mk_row ''01.04.2024'' ''Montag'' ''Planung'' None,
        mk_row ''08.04.2024'' ''Montag'' ''Planung'' None])"
    by code_simp
  show ?thesis
    using a b s weeks_visited_in_insertion_order [OF a b, THEN conjunct2] by blast
qed

text \<open>
  C7 as stated fails: for a table whose second row lies a week before its first, week 1
  is processed before week 0.
\<close>

theorem table_order_counterexample:
  "new_processor (mk_config [''MONTAG''] []) (map_of [(''default_hours'', ''8'')])
       [mk_row ''08.04.2024'' ''Montag'' ''Planung'' None,
        mk_row ''01.04.2024'' ''Montag'' ''Planung'' None]
     = Inr (mk_processor [(''default_hours'', ''8'')]
              [mk_row ''08.04.2024'' ''Montag'' ''Planung'' None,
               mk_row ''01.04.2024'' ''Montag'' ''Planung'' None]
              [(1, [(''MONTAG'', mk_data ''TAETIGKEIT_UNBEKANNT'' [])]),
               (0, [(''MONTAG'', mk_data ''TAETIGKEIT_UNBEKANNT'' [])])], [])
   \<and> map_sum id (visited_weeks \<circ> snd)
       (process_all_weeks (mk_config [''MONTAG''] []) [0]
          (mk_processor [(''default_hours'', ''8'')]
              [mk_row ''08.04.2024'' ''Montag'' ''Planung'' None,
               mk_row ''01.04.2024'' ''Montag'' ''Planung'' None]
              [(1, [(''MONTAG'', mk_data ''TAETIGKEIT_UNBEKANNT'' [])]),
               (0, [(''MONTAG'', mk_data ''TAETIGKEIT_UNBEKANNT'' [])])]))
     = Inr [1, 0]"
proof -
  have "initialize_weeks_data (mk_config [''MONTAG''] [])
       [mk_row ''08.04.2024'' ''Montag'' ''Planung'' None,
        mk_row ''01.04.2024'' ''Montag'' ''Planung'' None]
     = Inr ([(1, [(''MONTAG'', mk_data ''TAETIGKEIT_UNBEKANNT'' [])]),
             (0, [(''MONTAG'', mk_data ''TAETIGKEIT_UNBEKANNT'' [])])], [])"
    by code_simp
  then have a: "new_processor (mk_config [''MONTAG''] []) (map_of [(''default_hours'', ''8'')])
       [mk_row ''08.04.2024'' ''Montag'' ''Planung'' None,
        mk_row ''01.04.2024'' ''Montag'' ''Planung'' None]
     = Inr (mk_processor [(''default_hours'', ''8'')]
              [mk_row ''08.04.2024'' ''Montag'' ''Planung'' None,
               mk_row ''01.04.2024'' ''Montag'' ''Planung'' None]
              [(1, [(''MONTAG'', mk_data ''TAETIGKEIT_UNBEKANNT'' [])]),
               (0, [(''MONTAG'', mk_data ''TAETIGKEIT_UNBEKANNT'' [])])], [])"
    by (simp add: new_processor_def)
  have "map_sum id (visited_weeks \<circ> snd)
       (process_weeks (mk_config [''MONTAG''] []) (map_of [(''default_hours'', ''8'')])
          [mk_row ''08.04.2024'' ''Montag'' ''Planung'' None,
           mk_row ''01.04.2024'' ''Montag'' ''Planung'' None] [0]
          [(1, [(''MONTAG'', mk_data ''TAETIGKEIT_UNBEKANNT'' [])]),
           (0, [(''MONTAG'', mk_data ''TAETIGKEIT_UNBEKANNT'' [])])] [])
     = Inr [1, 0]"
    by code_simp
  then show ?thesis using a by (simp add: process_all_weeks_visited)
qed

lemma for_each_first_Inl: "body x s = Inl e \<Longrightarrow> for_each body (x # xs) s = Inl e"
  by simp

lemma process_day_KeyError:
  "st ''default_hours'' = None \<Longrightarrow> process_day st c week d s = Inl KeyError"
  by (cases s) (simp add: process_day_def replace_placeholders_for_day_KeyError split: option.splits)

lemma process_cell_KeyError:
  assumes "st ''default_hours'' = None" and "days cfg \<noteq> []"
  shows "process_cell cfg st week gp c s = Inl KeyError"
proof -
  obtain d ds where "days cfg = d # ds" using assms(2) by (cases "days cfg") auto
  then show ?thesis
    by (cases s) (simp add: process_cell_def process_day_KeyError [of st, OF assms(1)])
qed

lemma process_week_placeholders_raises:
  assumes "st ''default_hours'' = None" and "days cfg \<noteq> []" and "cells \<noteq> []"
  shows "process_week_placeholders cfg st rows cells week s =
     (case rows of [] \<Rightarrow> Inl KeyError
      | r0 # _ \<Rightarrow> (case calculate_week_range (year_padded cfg) (Datum r0) (week - 1) of
                     Inl e \<Rightarrow> Inl e | Inr _ \<Rightarrow> Inl KeyError))"
proof -
  obtain c cs where "cells = c # cs" using assms(3) by (cases cells) auto
  then show ?thesis
    by (cases s)
       (simp add: process_week_placeholders_def Let_def process_cell_KeyError [of st, OF assms(1,2)]
          split: list.splits sum.splits prod.splits)
qed

text \<open>
  C9 fails on the code for the key \<^verbatim>\<open>default_hours\<close>, which is read by subscript where
  \<^verbatim>\<open>name\<close> and \<^verbatim>\<open>year\<close> are read with a default. When the key is absent and there is a
  bucket, a cell and a configured day, the run never completes; it raises KeyError as
  soon as the week range of the first bucket has been computed.
\<close>

theorem missing_default_hours_raises:
  assumes "settings p ''default_hours'' = None"
    and "cells \<noteq> []" and "days cfg \<noteq> []" and "weeks_data p \<noteq> []"
  shows "(\<exists>e. process_all_weeks cfg cells p = Inl e)
       \<and> (\<forall>r0 rs range. data p = r0 # rs
            \<longrightarrow> calculate_week_range (year_padded cfg) (Datum r0) (fst (hd (weeks_data p)) - 1)
                  = Inr range
            \<longrightarrow> process_all_weeks cfg cells p = Inl KeyError)"
proof -
  obtain week es rest where wd: "weeks_data p = (week, es) # rest"
    using assms(4) by (cases "weeks_data p") auto
  show ?thesis
    by (auto simp: process_all_weeks_def wd process_week_placeholders_raises [of "settings p", OF assms(1,3,2)]
        split: list.splits sum.splits)
qed

theorem missing_default_hours_raises_witness:
  "settings (mk_processor [(''name'', ''Erika''), (''year'', ''2'')]
       [mk_row ''01.04.2024'' ''Montag'' ''Planung'' None]
       [(1, [(''MONTAG'', mk_data ''TAETIGKEIT_UNBEKANNT'' [])])]) ''default_hours'' = None
   \<and> new_processor (mk_config [''MONTAG''] []) (map_of [(''name'', ''Erika''), (''year'', ''2'')])
       [mk_row ''01.04.2024'' ''Montag'' ''Planung'' None]
     = Inr (mk_processor [(''name'', ''Erika''), (''year'', ''2'')]
              [mk_row ''01.04.2024'' ''Montag'' ''Planung'' None]
              [(1, [(''MONTAG'', mk_data ''TAETIGKEIT_UNBEKANNT'' [])])], [])
   \<and> process_all_weeks (mk_config [''MONTAG''] []) [0]
       (mk_processor [(''name'', ''Erika''), (''year'', ''2'')]
          [mk_row ''01.04.2024'' ''Montag'' ''Planung'' None]
          [(1, [(''MONTAG'', mk_data ''TAETIGKEIT_UNBEKANNT'' [])])])
     = Inl KeyError"
proof -
  have "initialize_weeks_data (mk_config [''MONTAG''] [])
       [mk_row ''01.04.2024'' ''Montag'' ''Planung'' None]
     = Inr ([(1, [(''MONTAG'', mk_data ''TAETIGKEIT_UNBEKANNT'' [])])], [])"
    by code_simp
  then have a: "new_processor (mk_config [''MONTAG''] []) (map_of [(''name'', ''Erika''), (''year'', ''2'')])
       [mk_row ''01.04.2024'' ''Montag'' ''Planung'' None]
     = Inr (mk_processor [(''name'', ''Erika''), (''year'', ''2'')]
              [mk_row ''01.04.2024'' ''Montag'' ''Planung'' None]
              [(1, [(''MONTAG'', mk_data ''TAETIGKEIT_UNBEKANNT'' [])])], [])"
    by (simp add: new_processor_def)
  have r: "calculate_week_range False ''01.04.2024'' 0 = Inr (''01.04.2024'', ''05.04.2024'')"
    by code_simp
  have k: "settings (mk_processor [(''name'', ''Erika''), (''year'', ''2'')]
       [mk_row ''01.04.2024'' ''Montag'' ''Planung'' None]
       [(1, [(''MONTAG'', mk_data ''TAETIGKEIT_UNBEKANNT'' [])])]) ''default_hours'' = None"
    by simp
  show ?thesis
    using a k r
      missing_default_hours_raises [OF k, of "[0]" "mk_config [''MONTAG''] []", THEN conjunct2]
    by simp
qed

section \<open>Properties of the calendar\<close>

subsection \<open>From day numbers to dates\<close>

lemma DAYS_BEFORE_MONTH_nth:
  "DAYS_BEFORE_MONTH ! nat 1 = 0" "DAYS_BEFORE_MONTH ! nat 2 = 31" "DAYS_BEFORE_MONTH ! nat 3 = 59"
  "DAYS_BEFORE_MONTH ! nat 4 = 90" "DAYS_BEFORE_MONTH ! nat 5 = 120" "DAYS_BEFORE_MONTH ! nat 6 = 151"
  "DAYS_BEFORE_MONTH ! nat 7 = 181" "DAYS_BEFORE_MONTH ! nat 8 = 212" "DAYS_BEFORE_MONTH ! nat 9 = 243"
  "DAYS_BEFORE_MONTH ! nat 10 = 273" "DAYS_BEFORE_MONTH ! nat 11 = 304" "DAYS_BEFORE_MONTH ! nat 12 = 334"
  by (simp_all add: DAYS_BEFORE_MONTH_def)

lemma DAYS_IN_MONTH_nth:
  "DAYS_IN_MONTH ! nat 1 = 31" "DAYS_IN_MONTH ! nat 2 = 28" "DAYS_IN_MONTH ! nat 3 = 31"
  "DAYS_IN_MONTH ! nat 4 = 30" "DAYS_IN_MONTH ! nat 5 = 31" "DAYS_IN_MONTH ! nat 6 = 30"
  "DAYS_IN_MONTH ! nat 7 = 31" "DAYS_IN_MONTH ! nat 8 = 31" "DAYS_IN_MONTH ! nat 9 = 30"
  "DAYS_IN_MONTH ! nat 10 = 31" "DAYS_IN_MONTH ! nat 11 = 30" "DAYS_IN_MONTH ! nat 12 = 31"
  by (simp_all add: DAYS_IN_MONTH_def)

lemma month_of_correct:
  assumes "0 \<le> e" and "e \<le> 364"
  shows "case month_of L e of (m, p) \<Rightarrow>
           1 \<le> m \<and> m \<le> 12
         \<and> p = DAYS_BEFORE_MONTH ! nat m + (if m > 2 \<and> L then 1 else 0)
         \<and> p \<le> e \<and> e - p < (if m = 2 \<and> L then 29 else DAYS_IN_MONTH ! nat m)"
proof -
  define mo where "mo = (e + 50) div 32"
  have range: "32 * mo \<le> e + 50" "e + 50 < 32 * mo + 32"
    unfolding mo_def by arith+
  then have "1 \<le> mo" "mo \<le> 12" using assms by arith+
  then have "mo = 1 \<or> mo = 2 \<or> mo = 3 \<or> mo = 4 \<or> mo = 5 \<or> mo = 6
      \<or> mo = 7 \<or> mo = 8 \<or> mo = 9 \<or> mo = 10 \<or> mo = 11 \<or> mo = 12"
    by arith
  then consider "mo = 1" | "mo = 2" | "mo = 3" | "mo = 4" | "mo = 5" | "mo = 6"
    | "mo = 7" | "mo = 8" | "mo = 9" | "mo = 10" | "mo = 11" | "mo = 12"
    by blast
  then show ?thesis
  proof cases
    case 1 then show ?thesis using range assms
      by (simp add: month_of_def Let_def mo_def [symmetric] DAYS_BEFORE_MONTH_def DAYS_IN_MONTH_def)
  next
    case 2 then show ?thesis using range assms
      by (simp add: month_of_def Let_def mo_def [symmetric] DAYS_BEFORE_MONTH_def DAYS_IN_MONTH_def)
  next
    case 3 then show ?thesis using range assms
      by (simp add: month_of_def Let_def mo_def [symmetric] DAYS_BEFORE_MONTH_def DAYS_IN_MONTH_def)
  next
    case 4 then show ?thesis using range assms
      by (simp add: month_of_def Let_def mo_def [symmetric] DAYS_BEFORE_MONTH_def DAYS_IN_MONTH_def)
  next
    case 5 then show ?thesis using range assms
      by (simp add: month_of_def Let_def mo_def [symmetric] DAYS_BEFORE_MONTH_def DAYS_IN_MONTH_def)
  next
    case 6 then show ?thesis using range assms
      by (simp add: month_of_def Let_def mo_def [symmetric] DAYS_BEFORE_MONTH_def DAYS_IN_MONTH_def)
  next
    case 7 then show ?thesis using range assms
      by (simp add: month_of_def Let_def mo_def [symmetric] DAYS_BEFORE_MONTH_def DAYS_IN_MONTH_def)
  next
    case 8 then show ?thesis using range assms
      by (simp add: month_of_def Let_def mo_def [symmetric] DAYS_BEFORE_MONTH_def DAYS_IN_MONTH_def)
  next
    case 9 then show ?thesis using range assms
      by (simp add: month_of_def Let_def mo_def [symmetric] DAYS_BEFORE_MONTH_def DAYS_IN_MONTH_def)
  next
    case 10 then show ?thesis using range assms
      by (simp add: month_of_def Let_def mo_def [symmetric] DAYS_BEFORE_MONTH_def DAYS_IN_MONTH_def)
  next
    case 11 then show ?thesis using range assms
      by (simp add: month_of_def Let_def mo_def [symmetric] DAYS_BEFORE_MONTH_def DAYS_IN_MONTH_def)
  next
    case 12 then show ?thesis using range assms
      by (simp add: month_of_def Let_def mo_def [symmetric] DAYS_BEFORE_MONTH_def DAYS_IN_MONTH_def)
  qed
qed

lemma year_div:
  fixes a b c d :: int
  assumes "0 \<le> b" "b \<le> 3" "0 \<le> c" "c \<le> 24" "0 \<le> d" "d \<le> 3"
  shows "(400 * a + 100 * b + 4 * c + d) div 4 = 100 * a + 25 * b + c"
    and "(400 * a + 100 * b + 4 * c + d) div 100 = 4 * a + b"
    and "(400 * a + 100 * b + 4 * c + d) div 400 = a"
proof -
  show "(400 * a + 100 * b + 4 * c + d) div 4 = 100 * a + 25 * b + c"
    by (rule int_div_pos_eq [where r = d]) (use assms in simp_all)
  show "(400 * a + 100 * b + 4 * c + d) div 100 = 4 * a + b"
    by (rule int_div_pos_eq [where r = "4 * c + d"]) (use assms in simp_all)
  show "(400 * a + 100 * b + 4 * c + d) div 400 = a"
    by (rule int_div_pos_eq [where r = "100 * b + 4 * c + d"]) (use assms in simp_all)
qed

lemma year_mod:
  fixes a b c d :: int
  assumes "0 \<le> b" "b \<le> 3" "0 \<le> c" "c \<le> 24" "0 \<le> d" "d \<le> 3"
  shows "(400 * a + 100 * b + 4 * c + d + 1) mod 4 = (d + 1) mod 4"
    and "(400 * a + 100 * b + 4 * c + d + 1) mod 100 = (4 * c + d + 1) mod 100"
    and "(400 * a + 100 * b + 4 * c + d + 1) mod 400 = (100 * b + 4 * c + d + 1) mod 400"
proof -
  have "(400 * a + 100 * b + 4 * c + d + 1) = (d + 1) + 4 * (100 * a + 25 * b + c)" by simp
  then show "(400 * a + 100 * b + 4 * c + d + 1) mod 4 = (d + 1) mod 4"
    by (metis mod_mult_self2)
  have "(400 * a + 100 * b + 4 * c + d + 1) = (4 * c + d + 1) + 100 * (4 * a + b)" by simp
  then show "(400 * a + 100 * b + 4 * c + d + 1) mod 100 = (4 * c + d + 1) mod 100"
    by (metis mod_mult_self2)
  have "(400 * a + 100 * b + 4 * c + d + 1) = (100 * b + 4 * c + d + 1) + 400 * a" by simp
  then show "(400 * a + 100 * b + 4 * c + d + 1) mod 400 = (100 * b + 4 * c + d + 1) mod 400"
    by (metis mod_mult_self2)
qed

lemma year_leap:
  fixes a b c d :: int
  assumes "0 \<le> b" "b \<le> 3" "0 \<le> c" "c \<le> 24" "0 \<le> d" "d \<le> 3"
  shows "is_leap (400 * a + 100 * b + 4 * c + d + 1) \<longleftrightarrow> d = 3 \<and> (c \<noteq> 24 \<or> b = 3)"
proof -
  have m4: "(d + 1) mod 4 = 0 \<longleftrightarrow> d = 3"
  proof (cases "d = 3")
    case True
    then show ?thesis by simp
  next
    case False
    then have "0 < d + 1" "d + 1 < 4" using assms by linarith+
    then have "(d + 1) mod 4 = d + 1" by simp
    then show ?thesis using False \<open>0 < d + 1\<close> by simp
  qed
  have m100: "(4 * c + d + 1) mod 100 = 0 \<longleftrightarrow> c = 24 \<and> d = 3"
  proof (cases "4 * c + d + 1 = 100")
    case True
    then have "c = 24 \<and> d = 3" using assms by linarith
    then show ?thesis by simp
  next
    case False
    then have "0 < 4 * c + d + 1" "4 * c + d + 1 < 100" using assms by linarith+
    then have "(4 * c + d + 1) mod 100 = 4 * c + d + 1" by simp
    then show ?thesis using False \<open>0 < 4 * c + d + 1\<close> by auto
  qed
  have m400: "(100 * b + 4 * c + d + 1) mod 400 = 0 \<longleftrightarrow> b = 3 \<and> c = 24 \<and> d = 3"
  proof (cases "100 * b + 4 * c + d + 1 = 400")
    case True
    then have "b = 3 \<and> c = 24 \<and> d = 3" using assms by linarith
    then show ?thesis by simp
  next
    case False
    then have "0 < 100 * b + 4 * c + d + 1" "100 * b + 4 * c + d + 1 < 400"
      using assms by linarith+
    then have "(100 * b + 4 * c + d + 1) mod 400 = 100 * b + 4 * c + d + 1" by simp
    then show ?thesis using False \<open>0 < 100 * b + 4 * c + d + 1\<close> by auto
  qed
  show ?thesis
    unfolding is_leap_def year_mod [OF assms] m4 m100 m400 by blast
qed

lemma year_days:
  fixes a b c d :: int
  assumes "0 \<le> b" "b \<le> 3" "0 \<le> c" "c \<le> 24" "0 \<le> d" "d \<le> 3"
  shows "days_before_year (400 * a + 100 * b + 4 * c + d + 1)
       = 146097 * a + 36524 * b + 1461 * c + 365 * d"
  by (simp add: days_before_year_def Let_def year_div [OF assms])

lemma ord2ymd_unfold:
  fixes n :: int
  defines "a \<equiv> (n - 1) div 146097" and "r1 \<equiv> (n - 1) mod 146097"
  defines "b \<equiv> r1 div 36524" and "r2 \<equiv> r1 mod 36524"
  defines "c \<equiv> r2 div 1461" and "r3 \<equiv> r2 mod 1461"
  defines "d \<equiv> r3 div 365" and "r4 \<equiv> r3 mod 365"
  shows "ord2ymd n =
     (if d = 4 \<or> b = 4 then (a * 400 + 1 + b * 100 + c * 4 + d - 1, 12, 31)
      else (a * 400 + 1 + b * 100 + c * 4 + d,
            fst (month_of (d = 3 \<and> (c \<noteq> 24 \<or> b = 3)) r4),
            r4 - snd (month_of (d = 3 \<and> (c \<noteq> 24 \<or> b = 3)) r4) + 1))"
proof -
  have m: "(if p > e then (x, e - q + 1) else (y, e - p + 1))
      = (fst (if p > e then (x, q) else (y, p)), e - snd (if p > e then (x, q) else (y, p)) + 1)"
    for p e q :: int and x y :: int
    by simp
  show ?thesis
    unfolding ord2ymd_def month_of_def Let_def DI400Y_def DI100Y_def DI4Y_def
    apply (simp only: a_def [symmetric] r1_def [symmetric] b_def [symmetric] r2_def [symmetric]
        c_def [symmetric] r3_def [symmetric] d_def [symmetric] r4_def [symmetric])
    apply (simp del: nth_Cons_numeral)
    done
qed

lemma ord2ymd_correct:
  fixes n :: int
  assumes "1 \<le> n"
  shows "ymd2ord (ord2ymd n) = n \<and> valid_ymd (ord2ymd n)
       \<and> (n \<le> MAXORDINAL \<longrightarrow> fst (ord2ymd n) \<le> MAXYEAR)"
proof -
  define a where "a = (n - 1) div 146097"
  define r1 where "r1 = (n - 1) mod 146097"
  define b where "b = r1 div 36524"
  define r2 where "r2 = r1 mod 36524"
  define c where "c = r2 div 1461"
  define r3 where "r3 = r2 mod 1461"
  define d where "d = r3 div 365"
  define r4 where "r4 = r3 mod 365"
  have n: "n - 1 = 146097 * a + r1" and r1: "0 \<le> r1" "r1 < 146097"
    by (simp_all add: a_def r1_def)
  have r1': "r1 = 36524 * b + r2" and r2: "0 \<le> r2" "r2 < 36524"
    by (simp_all add: b_def r2_def)
  have r2': "r2 = 1461 * c + r3" and r3: "0 \<le> r3" "r3 < 1461"
    by (simp_all add: c_def r3_def)
  have r3': "r3 = 365 * d + r4" and r4: "0 \<le> r4" "r4 < 365"
    by (simp_all add: d_def r4_def)
  have a: "0 \<le> a" using assms by (simp add: a_def pos_imp_zdiv_nonneg_iff)
  have b: "0 \<le> b" "b \<le> 4" using r1 r1' r2 by linarith+
  have c: "0 \<le> c" "c \<le> 24" using r2 r2' r3 by linarith+
  have d: "0 \<le> d" "d \<le> 4" using r3 r3' r4 by linarith+
  have total: "n - 1 = 146097 * a + 36524 * b + 1461 * c + 365 * d + r4"
    using n r1' r2' r3' by linarith
  note unf = ord2ymd_unfold [of n, folded a_def r1_def, folded b_def r2_def, folded c_def r3_def,
      folded d_def r4_def]
  consider (century) "b = 4" | (quad) "b \<le> 3" "d = 4" | (normal) "b \<le> 3" "d \<le> 3"
    using b d by linarith
  then show ?thesis
  proof cases
    case century
    then have z: "r2 = 0" using r1 r1' r2 by linarith
    then have "c = 0" "r3 = 0" using r2' r3 c by linarith+
    then have "d = 0" "r4 = 0" using r3' r4 d by linarith+
    note v = \<open>c = 0\<close> \<open>d = 0\<close> \<open>r4 = 0\<close> century
    have res: "ord2ymd n = (400 * a + 100 * 3 + 4 * 24 + 3 + 1, 12, 31)"
      unfolding unf by (simp add: v)
    have bnd: "(0::int) \<le> 3" "(3::int) \<le> 3" "(0::int) \<le> 24" "(24::int) \<le> 24" by simp_all
    have leap: "is_leap (400 * a + 100 * 3 + 4 * 24 + 3 + 1)"
      using year_leap [OF bnd(1,2,3,4,1,2), of a] by simp
    have days: "days_before_year (400 * a + 100 * 3 + 4 * 24 + 3 + 1)
        = 146097 * a + 36524 * 3 + 1461 * 24 + 365 * 3"
      by (rule year_days [OF bnd(1,2,3,4,1,2)])
    have "n \<le> MAXORDINAL \<longrightarrow> 400 * a + 100 * 3 + 4 * 24 + 3 + 1 \<le> MAXYEAR"
      using total v by (simp add: MAXORDINAL_def MAXYEAR_def)
    then show ?thesis
      unfolding res using total v a leap days
      by (simp add: ymd2ord_def valid_ymd_def days_before_month_def days_in_month_def
          DAYS_BEFORE_MONTH_def DAYS_IN_MONTH_def)
  next
    case quad
    then have "r4 = 0" using r3 r3' r4 by linarith
    have c23: "c \<le> 23" using r2 r2' r3' quad r4 by linarith
    have res: "ord2ymd n = (400 * a + 100 * b + 4 * c + 3 + 1, 12, 31)"
      unfolding unf by (simp add: quad)
    have bnd: "(0::int) \<le> 3" "(3::int) \<le> 3" by simp_all
    have leap: "is_leap (400 * a + 100 * b + 4 * c + 3 + 1)"
      using year_leap [OF b(1) quad(1) c bnd, of a] c23 by simp
    have days: "days_before_year (400 * a + 100 * b + 4 * c + 3 + 1)
        = 146097 * a + 36524 * b + 1461 * c + 365 * 3"
      by (rule year_days [OF b(1) quad(1) c bnd])
    have "n \<le> MAXORDINAL \<longrightarrow> 400 * a + 100 * b + 4 * c + 3 + 1 \<le> MAXYEAR"
      using total quad \<open>r4 = 0\<close> a b c c23 by (simp add: MAXORDINAL_def MAXYEAR_def)
    then show ?thesis
      unfolding res using total quad \<open>r4 = 0\<close> a b c leap days
      by (simp add: ymd2ord_def valid_ymd_def days_before_month_def days_in_month_def
          DAYS_BEFORE_MONTH_def DAYS_IN_MONTH_def)
  next
    case normal
    define L where "L \<longleftrightarrow> d = 3 \<and> (c \<noteq> 24 \<or> b = 3)"
    let ?Y = "400 * a + 100 * b + 4 * c + d + 1"
    obtain m p where mp: "month_of L r4 = (m, p)" by (cases "month_of L r4")
    have res: "ord2ymd n = (?Y, m, r4 - p + 1)"
      unfolding unf [folded L_def] using normal by (simp add: mp)
    have leap: "is_leap ?Y \<longleftrightarrow> L"
      unfolding L_def by (rule year_leap [OF b(1) normal(1) c d(1) normal(2)])
    have days: "days_before_year ?Y = 146097 * a + 36524 * b + 1461 * c + 365 * d"
      by (rule year_days [OF b(1) normal(1) c d(1) normal(2)])
    have "r4 \<le> 364" using r4 by simp
    from month_of_correct [OF r4(1) this, of L]
    have m: "1 \<le> m" "m \<le> 12"
      and p: "p = DAYS_BEFORE_MONTH ! nat m + (if m > 2 \<and> L then 1 else 0)"
      and day: "p \<le> r4" "r4 - p < (if m = 2 \<and> L then 29 else DAYS_IN_MONTH ! nat m)"
      by (simp_all add: mp)
    have ord: "ymd2ord (?Y, m, r4 - p + 1) = n"
      using total days p leap by (simp add: ymd2ord_def days_before_month_def)
    have valid: "valid_ymd (?Y, m, r4 - p + 1)"
      using a b c d m day leap by (simp add: valid_ymd_def days_in_month_def)
    have year: "?Y \<le> MAXYEAR" if "n \<le> MAXORDINAL"
    proof -
      have le: "146097 * a + 36524 * b + 1461 * c + 365 * d \<le> 3652058"
        using that total r4 by (simp add: MAXORDINAL_def)
      then have "a \<le> 24" using b c d by linarith
      then consider "a \<le> 23" | "a = 24" by linarith
      then show ?thesis
      proof cases
        case 1
        then show ?thesis using normal c by (simp add: MAXYEAR_def)
      next
        case 2
        show ?thesis
        proof (rule ccontr)
          assume "\<not> ?Y \<le> MAXYEAR"
          then have "100 * b + 4 * c + d \<ge> 399" using 2 by (simp add: MAXYEAR_def)
          then have "b = 3 \<and> c = 24 \<and> d = 3" using normal c by linarith
          then show False using le 2 by simp
        qed
      qed
    qed
    show ?thesis
      unfolding res using ord valid year by simp
  qed
qed

subsection \<open>Printing and parsing a date\<close>

lemma of_char_digit_char: "0 \<le> k \<Longrightarrow> k \<le> 9 \<Longrightarrow> (of_char (digit_char k) :: nat) = 48 + nat k"
  by (simp add: digit_char_def)

lemma is_digit_digit_char: "0 \<le> k \<Longrightarrow> k \<le> 9 \<Longrightarrow> is_digit (digit_char k)"
  by (simp add: is_digit_def of_char_digit_char)

lemma digit_val_digit_char: "0 \<le> k \<Longrightarrow> k \<le> 9 \<Longrightarrow> digit_val (digit_char k) = k"
  by (simp add: digit_val_def of_char_digit_char)

lemma digit_in_digit_char:
  "0 \<le> k \<Longrightarrow> k \<le> 9 \<Longrightarrow> digit_in lo hi (digit_char k) \<longleftrightarrow> lo \<le> k \<and> k \<le> hi"
  by (simp add: digit_in_def is_digit_digit_char digit_val_digit_char)

lemma digit_char_not_dot: "0 \<le> k \<Longrightarrow> k \<le> 9 \<Longrightarrow> digit_char k \<noteq> CHR ''.''"
proof
  assume k: "0 \<le> k" "k \<le> 9" and "digit_char k = CHR ''.''"
  then have "(of_char (digit_char k) :: nat) = of_char CHR ''.''" by simp
  then show False using k by (simp add: of_char_digit_char)
qed

lemma digit_char_not_space: "0 \<le> k \<Longrightarrow> k \<le> 9 \<Longrightarrow> digit_char k \<noteq> CHR '' ''"
proof
  assume k: "0 \<le> k" "k \<le> 9" and "digit_char k = CHR '' ''"
  then have "(of_char (digit_char k) :: nat) = of_char CHR '' ''" by simp
  then show False using k by (simp add: of_char_digit_char)
qed

lemmas digit_char_simps = digit_in_digit_char is_digit_digit_char digit_val_digit_char
  digit_char_not_dot digit_char_not_space

text \<open>The day group followed by the dot, on two printed digits.\<close>

lemma re_d_two:
  assumes "0 \<le> t" "t \<le> 3" "0 \<le> u" "u \<le> 9" "1 \<le> 10 * t + u" "10 * t + u \<le> 31"
  shows "List.bind (re_d (digit_char t # digit_char u # CHR ''.'' # rest))
           (\<lambda>(v, r1). List.bind (re_dot r1) (K v)) = K (10 * t + u) rest"
proof -
  have t9: "t \<le> 9" using assms by simp
  note dc = digit_char_simps [OF assms(1) t9] digit_char_simps [OF assms(3,4)]
  consider "t = 0" "1 \<le> u" | "t = 1" | "t = 2" | "t = 3" "u \<le> 1"
    using assms by (cases "t = 0"; cases "t = 1"; cases "t = 2"; cases "t = 3") linarith+
  then show ?thesis
  proof cases
    case 1
    then show ?thesis
      using assms(3,4)
      by (simp add: re_d_def two_digits_def one_digit_def space_digit_def re_dot_def digit_char_simps)
  next
    case 2
    then show ?thesis
      using assms(3,4)
      by (simp add: re_d_def two_digits_def one_digit_def space_digit_def re_dot_def digit_char_simps)
  next
    case 3
    then show ?thesis
      using assms(3,4)
      by (simp add: re_d_def two_digits_def one_digit_def space_digit_def re_dot_def digit_char_simps)
  next
    case 4
    then show ?thesis
      using assms(3,4)
      by (simp add: re_d_def two_digits_def one_digit_def space_digit_def re_dot_def digit_char_simps)
  qed
qed


lemma re_m_two:
  assumes "0 \<le> t" "t \<le> 1" "0 \<le> u" "u \<le> 9" "1 \<le> 10 * t + u" "10 * t + u \<le> 12"
  shows "List.bind (re_m (digit_char t # digit_char u # CHR ''.'' # rest))
           (\<lambda>(v, r1). List.bind (re_dot r1) (K v)) = K (10 * t + u) rest"
proof -
  consider "t = 0" "1 \<le> u" | "t = 1" "u \<le> 2"
    using assms by (cases "t = 0") linarith+
  then show ?thesis
  proof cases
    case 1
    then show ?thesis
      using assms(3,4)
      by (simp add: re_m_def two_digits_def one_digit_def re_dot_def digit_char_simps)
  next
    case 2
    then show ?thesis
      using assms(3,4)
      by (simp add: re_m_def two_digits_def one_digit_def re_dot_def digit_char_simps)
  qed
qed

lemma decimal_digits:
  fixes y :: int
  shows "1000 * (y div 1000) + 100 * (y div 100 mod 10) + 10 * (y div 10 mod 10) + y mod 10 = y"
proof -
  have a: "y = 10 * (y div 10) + y mod 10" by simp
  have b: "y div 10 = 10 * (y div 100) + y div 10 mod 10"
    using zdiv_zmult2_eq [of 10 y 10] by simp
  have c: "y div 100 = 10 * (y div 1000) + y div 100 mod 10"
    using zdiv_zmult2_eq [of 10 y 100] by simp
  show ?thesis using a b c by linarith
qed

lemma re_Y_four:
  assumes "0 \<le> a" "a \<le> 9" "0 \<le> b" "b \<le> 9" "0 \<le> c" "c \<le> 9" "0 \<le> d" "d \<le> 9"
  shows "re_Y [digit_char a, digit_char b, digit_char c, digit_char d]
           = [(1000 * a + 100 * b + 10 * c + d, [])]"
  using assms by (simp add: re_Y_def digit_char_simps)

lemma re_d_printed:
  assumes "1 \<le> d" and "d \<le> 31"
  shows "List.bind (re_d (digit_char (d div 10) # digit_char (d mod 10) # CHR ''.'' # rest))
           (\<lambda>(v, r1). List.bind (re_dot r1) (K v)) = K d rest"
proof -
  have "0 \<le> d div 10" "d div 10 \<le> 3" "0 \<le> d mod 10" "d mod 10 \<le> 9"
    using assms by simp_all
  from re_d_two [OF this, of rest K] show ?thesis using assms by simp
qed

lemma re_m_printed:
  assumes "1 \<le> m" and "m \<le> 12"
  shows "List.bind (re_m (digit_char (m div 10) # digit_char (m mod 10) # CHR ''.'' # rest))
           (\<lambda>(v, r1). List.bind (re_dot r1) (K v)) = K m rest"
proof -
  have "0 \<le> m div 10" "m div 10 \<le> 1" "0 \<le> m mod 10" "m mod 10 \<le> 9"
    using assms by simp_all
  from re_m_two [OF this, of rest K] show ?thesis using assms by simp
qed

lemma re_Y_printed:
  assumes "0 \<le> y" and "y \<le> 9999"
  shows "re_Y [digit_char (y div 1000), digit_char (y div 100 mod 10),
               digit_char (y div 10 mod 10), digit_char (y mod 10)] = [(y, [])]"
proof -
  have "0 \<le> y div 1000" "y div 1000 \<le> 9"
    using assms zdiv_mono1 [of y 9999 1000] by (simp_all add: pos_imp_zdiv_nonneg_iff)
  moreover have "0 \<le> x mod 10" "x mod 10 \<le> 9" for x :: int
    using pos_mod_bound [of 10 x] by simp_all
  ultimately have "re_Y [digit_char (y div 1000), digit_char (y div 100 mod 10),
               digit_char (y div 10 mod 10), digit_char (y mod 10)]
      = [(1000 * (y div 1000) + 100 * (y div 100 mod 10) + 10 * (y div 10 mod 10) + y mod 10, [])]"
    by (intro re_Y_four)
  then show ?thesis by (simp only: decimal_digits)
qed

lemma month_cases:
  fixes m :: int
  assumes "1 \<le> m" and "m \<le> 12"
  shows "m = 1 \<or> m = 2 \<or> m = 3 \<or> m = 4 \<or> m = 5 \<or> m = 6
       \<or> m = 7 \<or> m = 8 \<or> m = 9 \<or> m = 10 \<or> m = 11 \<or> m = 12"
  using assms by arith

lemma days_in_month_le_31: "1 \<le> m \<Longrightarrow> m \<le> 12 \<Longrightarrow> days_in_month y m \<le> 31"
  using month_cases [of m] by (auto simp: days_in_month_def DAYS_IN_MONTH_def)

lemma days_before_month_nonneg: "1 \<le> m \<Longrightarrow> m \<le> 12 \<Longrightarrow> 0 \<le> days_before_month y m"
  using month_cases [of m] by (auto simp: days_before_month_def DAYS_BEFORE_MONTH_def)

lemma show_nat_four:
  fixes y :: int
  assumes "1000 \<le> y" and "y \<le> 9999"
  shows "show_nat (nat y) = [digit_char (y div 1000), digit_char (y div 100 mod 10),
                             digit_char (y div 10 mod 10), digit_char (y mod 10)]"
proof -
  define n where "n = nat y"
  have y: "y = int n" using assms by (simp add: n_def)
  have n: "1000 \<le> n" "n < 10000" using assms by (simp_all add: n_def)
  have d2: "n div 10 div 10 = n div 100" and d3: "n div 100 div 10 = n div 1000"
    by (simp_all add: div_mult2_eq [symmetric])
  have 1: "show_nat n = show_nat (n div 10) @ [digit_char (int (n mod 10))]"
    using n by (subst show_nat.simps) simp
  have 2: "show_nat (n div 10) = show_nat (n div 100) @ [digit_char (int (n div 10 mod 10))]"
    using n by (subst show_nat.simps) (simp add: d2)
  have 3: "show_nat (n div 100) = show_nat (n div 1000) @ [digit_char (int (n div 100 mod 10))]"
    using n by (subst show_nat.simps) (simp add: d3)
  have 4: "show_nat (n div 1000) = [digit_char (int (n div 1000))]"
    using n by (subst show_nat.simps) simp
  have "show_nat n = [digit_char (int (n div 1000)), digit_char (int (n div 100 mod 10)),
                      digit_char (int (n div 10 mod 10)), digit_char (int (n mod 10))]"
    by (simp add: 1 2 3 4)
  then show ?thesis by (simp add: y zdiv_int zmod_int)
qed

lemma length_show_nat:
  assumes "n < 1000"
  shows "length (show_nat n) \<le> 3"
proof -
  have 1: "length (show_nat k) = 1" if "k < 10" for k
    using that by (subst show_nat.simps) simp
  have 2: "length (show_nat k) \<le> 2" if "k < 100" for k
    using that 1 [of "k div 10"] 1 [of k] by (subst show_nat.simps) simp
  show ?thesis
    using assms 2 [of "n div 10"] 1 [of n] by (subst show_nat.simps) simp
qed

lemma re_Y_short: "length s < 4 \<Longrightarrow> re_Y s = []"
  by (auto simp: re_Y_def split: list.splits)

text \<open>
  A printed date is read back when its year has four digits: always where the year is
  padded, and from the year 1000 on where it is not.
\<close>

lemma strptime_strftime:
  assumes "check_date_fields dt" and "padded \<or> 1000 \<le> fst dt"
  shows "strptime (strftime padded dt) = Some dt"
proof -
  obtain y m d where dt: "dt = (y, m, d)" by (cases dt)
  have y: "1 \<le> y" "y \<le> 9999" and m: "1 \<le> m" "m \<le> 12" and d1: "1 \<le> d"
    and d2: "d \<le> days_in_month y m"
    using assms(1) by (simp_all add: dt check_date_fields_def MINYEAR_def MAXYEAR_def)
  have d31: "d \<le> 31" using d2 days_in_month_le_31 [OF m, of y] by linarith
  have y0: "0 \<le> y" using y by simp
  have printed: "strftime padded dt =
        [digit_char (d div 10), digit_char (d mod 10), CHR ''.'',
         digit_char (m div 10), digit_char (m mod 10), CHR ''.'',
         digit_char (y div 1000), digit_char (y div 100 mod 10),
         digit_char (y div 10 mod 10), digit_char (y mod 10)]"
    using assms(2) show_nat_four [OF _ y(2)] by (auto simp: strftime_def dt)
  have "date_regex (strftime padded dt) = [((y, m, d), [])]"
    unfolding date_regex_def printed
    by (simp add: re_d_printed [OF d1 d31] re_m_printed [OF m] re_Y_printed [OF y0 y(2)])
  then show ?thesis using assms(1) by (simp add: strptime_def dt)
qed

text \<open>Where the year is not padded, a printed date before the year 1000 is not read back.\<close>

lemma strptime_strftime_short_year:
  assumes "check_date_fields dt" and "fst dt < 1000"
  shows "strptime (strftime False dt) = None"
proof -
  obtain y m d where dt: "dt = (y, m, d)" by (cases dt)
  have y: "1 \<le> y" "y < 1000" and m: "1 \<le> m" "m \<le> 12" and d1: "1 \<le> d"
    and d2: "d \<le> days_in_month y m"
    using assms by (simp_all add: dt check_date_fields_def MINYEAR_def)
  have d31: "d \<le> 31" using d2 days_in_month_le_31 [OF m, of y] by linarith
  have "length (show_nat (nat y)) \<le> 3" using y by (intro length_show_nat) simp
  then have short: "re_Y (show_nat (nat y)) = []" by (intro re_Y_short) simp
  have "date_regex (strftime False dt) = []"
    unfolding date_regex_def strftime_def dt
    by (simp add: re_d_printed [OF d1 d31] re_m_printed [OF m] short)
  then show ?thesis by (simp add: strptime_def)
qed

lemma check_date_fields_valid:
  "check_date_fields dt \<longleftrightarrow> valid_ymd dt \<and> fst dt \<le> MAXYEAR"
  by (cases dt) (auto simp: check_date_fields_def valid_ymd_def MINYEAR_def)

lemma days_before_year_nonneg:
  assumes "1 \<le> y"
  shows "0 \<le> days_before_year y"
proof -
  have "(y - 1) div 100 \<le> (y - 1) div 4"
    using assms by (intro zdiv_mono2) simp_all
  moreover have "0 \<le> (y - 1) div 400"
    using assms by (simp add: pos_imp_zdiv_nonneg_iff)
  ultimately show ?thesis
    using assms by (simp add: days_before_year_def Let_def)
qed

lemma ymd2ord_positive:
  assumes "check_date_fields dt"
  shows "1 \<le> ymd2ord dt"
proof -
  obtain y m d where dt: "dt = (y, m, d)" by (cases dt)
  have y: "1 \<le> y" and m: "1 \<le> m" "m \<le> 12" and d: "1 \<le> d"
    using assms by (simp_all add: dt check_date_fields_def MINYEAR_def)
  show ?thesis
    using days_before_year_nonneg [OF y] days_before_month_nonneg [OF m, of y] d
    by (simp add: dt ymd2ord_def)
qed

lemma strptime_Some_valid: "strptime s = Some dt \<Longrightarrow> check_date_fields dt"
  by (auto simp: strptime_def split: list.splits if_splits prod.splits)

lemma calculate_week_range_in_range:
  assumes "strptime start_date = Some dt" and "0 \<le> k"
    and "ymd2ord dt + 7 * k + 4 \<le> MAXORDINAL"
  shows "calculate_week_range padded start_date k
       = Inr (strftime padded (ord2ymd (ymd2ord dt + 7 * k)),
              strftime padded (ord2ymd (ymd2ord dt + 7 * k + 4)))"
proof -
  have pos: "1 \<le> ymd2ord dt" by (rule ymd2ord_positive [OF strptime_Some_valid [OF assms(1)]])
  have "\<bar>7 * k\<bar> \<le> 999999999"
    using assms(2,3) pos by (simp add: MAXORDINAL_def)
  then show ?thesis
    using assms pos by (simp add: calculate_week_range_def add_days_def)
qed

lemma calculate_week_range_overflow:
  assumes "strptime start_date = Some dt" and "0 \<le> k"
    and "MAXORDINAL < ymd2ord dt + 7 * k + 4"
  shows "calculate_week_range padded start_date k = Inl OverflowError"
  using assms by (simp add: calculate_week_range_def add_days_def)


subsection \<open>The week number\<close>

lemma div7_known: "0 \<le> r \<Longrightarrow> r \<le> 6 \<Longrightarrow> (7 * k + r) div 7 = (k::int)"
  by (rule int_div_pos_eq [where r = r]) simp_all

text \<open>The Monday that starts week 1 lies at most three days from New Year's Day.\<close>

lemma isoweek1monday_form:
  "\<exists>M. isoweek1monday y = 7 * M - 6
       \<and> new_year y - 3 \<le> isoweek1monday y \<and> isoweek1monday y \<le> new_year y + 3"
proof -
  define J where "J = new_year y"
  define f where "f = (J + 6) mod 7"
  define q where "q = (J + 6) div 7"
  have f: "0 \<le> f" "f \<le> 6"
    using pos_mod_bound [of 7 "J + 6"] by (simp_all add: f_def)
  have J: "J + 6 = 7 * q + f"
    unfolding f_def q_def by simp
  have w: "isoweek1monday y = (if f > 3 then J - f + 7 else J - f)"
    by (simp add: isoweek1monday_def Let_def J_def new_year_def f_def)
  show ?thesis
  proof (cases "f > 3")
    case True
    have "isoweek1monday y = 7 * (q + 1) - 6" using w J True by simp
    moreover have "J - 3 \<le> isoweek1monday y" "isoweek1monday y \<le> J + 3"
      using w True f by simp_all
    ultimately show ?thesis unfolding J_def by blast
  next
    case False
    have "isoweek1monday y = 7 * q - 6" using w J False by simp
    moreover have "J - 3 \<le> isoweek1monday y" "isoweek1monday y \<le> J + 3"
      using w False f by simp_all
    ultimately show ?thesis unfolding J_def by blast
  qed
qed

lemma week_thursday_form:
  "\<exists>q f. n = 7 * q - 6 + f \<and> 0 \<le> f \<and> f \<le> 6 \<and> week_thursday n = 7 * q - 3"
proof -
  define f where "f = (n + 6) mod 7"
  define q where "q = (n + 6) div 7"
  have f: "0 \<le> f" "f \<le> 6"
    using pos_mod_bound [of 7 "n + 6"] by (simp_all add: f_def)
  have n: "n + 6 = 7 * q + f"
    unfolding f_def q_def by simp
  have "week_thursday n = n - f + 3"
    by (simp add: week_thursday_def weekday_def f_def)
  then have "week_thursday n = 7 * q - 3" using n by linarith
  moreover have "n = 7 * q - 6 + f" using n by linarith
  ultimately show ?thesis using f by blast
qed

lemma div_step:
  fixes x k :: int
  assumes "0 < k"
  shows "x div k - (x - 1) div k = (if x mod k = 0 then 1 else 0)"
proof (cases "x mod k = 0")
  case True
  have "x - 1 = k * (x div k - 1) + (k - 1)"
    using True mult_div_mod_eq [of k x] by (simp add: algebra_simps)
  then have "(x - 1) div k = x div k - 1"
    by (rule int_div_pos_eq) (use assms in simp_all)
  then show ?thesis using True by simp
next
  case False
  have "0 \<le> x mod k" "x mod k < k" using assms by simp_all
  then have r: "0 \<le> x mod k - 1" "x mod k - 1 < k" using False by linarith+
  have "x - 1 = k * (x div k) + (x mod k - 1)"
    using mult_div_mod_eq [of k x] by simp
  then have "(x - 1) div k = x div k"
    by (rule int_div_pos_eq) (use r in simp_all)
  then show ?thesis using False by simp
qed

lemma new_year_eq: "new_year y = days_before_year y + 1"
  by (simp add: new_year_def ymd2ord_def days_before_month_def DAYS_BEFORE_MONTH_def)

lemma year_length: "new_year (y + 1) - new_year y = (if is_leap y then 366 else 365)"
proof -
  have s4: "y div 4 - (y - 1) div 4 = (if y mod 4 = 0 then 1 else 0)"
    by (rule div_step) simp
  have s100: "y div 100 - (y - 1) div 100 = (if y mod 100 = 0 then 1 else 0)"
    by (rule div_step) simp
  have s400: "y div 400 - (y - 1) div 400 = (if y mod 400 = 0 then 1 else 0)"
    by (rule div_step) simp
  have i1: "y mod 4 = 0" if "y mod 100 = 0"
  proof -
    have "(100::int) dvd y" using that by (simp add: mod_eq_0_iff_dvd)
    moreover have "(4::int) dvd 100" by simp
    ultimately have "(4::int) dvd y" by (rule dvd_trans [rotated])
    then show ?thesis by (simp add: mod_eq_0_iff_dvd)
  qed
  have i2: "y mod 100 = 0" if "y mod 400 = 0"
  proof -
    have "(400::int) dvd y" using that by (simp add: mod_eq_0_iff_dvd)
    moreover have "(100::int) dvd 400" by simp
    ultimately have "(100::int) dvd y" by (rule dvd_trans [rotated])
    then show ?thesis by (simp add: mod_eq_0_iff_dvd)
  qed
  have a: "days_before_year (y + 1) = y * 365 + y div 4 - y div 100 + y div 400"
    by (simp add: days_before_year_def Let_def)
  have b: "days_before_year y = (y - 1) * 365 + (y - 1) div 4 - (y - 1) div 100 + (y - 1) div 400"
    by (simp add: days_before_year_def Let_def)
  have c: "new_year (y + 1) - new_year y
      = 365 + (y div 4 - (y - 1) div 4) - (y div 100 - (y - 1) div 100)
          + (y div 400 - (y - 1) div 400)"
    unfolding new_year_eq a b by (simp add: algebra_simps)
  show ?thesis
  proof (cases "y mod 4 = 0")
    case False
    then have n100: "y mod 100 \<noteq> 0" using i1 by auto
    then have n400: "y mod 400 \<noteq> 0" using i2 by auto
    note n100 n400
    then show ?thesis unfolding c s4 s100 s400 is_leap_def using False by simp
  next
    case True
    show ?thesis
    proof (cases "y mod 100 = 0")
      case h: False
      then have "y mod 400 \<noteq> 0" using i2 by auto
      then show ?thesis unfolding c s4 s100 s400 is_leap_def using True h by simp
    next
      case h: True
      show ?thesis unfolding c s4 s100 s400 is_leap_def using True h by simp
    qed
  qed
qed

lemma month_span:
  assumes "1 \<le> m" and "m \<le> 12"
  shows "days_before_month y m + days_in_month y m \<le> (if is_leap y then 366 else 365)"
  using month_cases [OF assms]
  by (elim disjE)
     (simp_all add: days_before_month_def days_in_month_def DAYS_BEFORE_MONTH_def DAYS_IN_MONTH_def)

lemma date_in_year:
  assumes "check_date_fields (y, m, d)"
  shows "new_year y \<le> ymd2ord (y, m, d)" and "ymd2ord (y, m, d) < new_year (y + 1)"
proof -
  have m: "1 \<le> m" "m \<le> 12" and d: "1 \<le> d" "d \<le> days_in_month y m"
    using assms by (simp_all add: check_date_fields_def)
  show "new_year y \<le> ymd2ord (y, m, d)"
    using days_before_month_nonneg [OF m, of y] d
    by (simp add: new_year_eq ymd2ord_def)
  have "days_before_month y m + d \<le> new_year (y + 1) - new_year y"
    using month_span [OF m, of y] d unfolding year_length by linarith
  then show "ymd2ord (y, m, d) < new_year (y + 1)"
    by (simp add: new_year_eq ymd2ord_def)
qed

lemma iso_week_refines:
  assumes "check_date_fields dt"
  shows "iso_week dt = iso_week_8601 dt \<and> 1 \<le> iso_week dt \<and> iso_week dt \<le> 53"
proof -
  obtain y m d where dt: "dt = (y, m, d)" by (cases dt)
  define n where "n = ymd2ord (y, m, d)"
  define A where "A = new_year (y - 1)"
  define B where "B = new_year y"
  define C where "C = new_year (y + 1)"
  have n: "B \<le> n" "n < C"
    using date_in_year [OF assms [unfolded dt]] by (simp_all add: n_def B_def C_def)
  have lenB: "C - B = 365 \<or> C - B = 366"
    using year_length [of y] by (simp add: B_def C_def split: if_splits)
  have lenA: "B - A = 365 \<or> B - A = 366"
    using year_length [of "y - 1"] by (simp add: A_def B_def split: if_splits)
  from isoweek1monday_form [of "y - 1"] obtain a where
    a: "isoweek1monday (y - 1) = 7 * a - 6" "A - 3 \<le> 7 * a - 6" "7 * a - 6 \<le> A + 3"
    unfolding A_def by auto
  from isoweek1monday_form [of y] obtain b where
    b: "isoweek1monday y = 7 * b - 6" "B - 3 \<le> 7 * b - 6" "7 * b - 6 \<le> B + 3"
    unfolding B_def by auto
  from isoweek1monday_form [of "y + 1"] obtain c where
    c: "isoweek1monday (y + 1) = 7 * c - 6" "C - 3 \<le> 7 * c - 6" "7 * c - 6 \<le> C + 3"
    unfolding C_def by auto
  from week_thursday_form [of n] obtain q f where
    q: "n = 7 * q - 6 + f" "0 \<le> f" "f \<le> 6" "week_thursday n = 7 * q - 3"
    by blast
  have da: "(n - (7 * a - 6)) div 7 = q - a"
  proof -
    have "n - (7 * a - 6) = 7 * (q - a) + f" using q(1) by simp
    then show ?thesis using div7_known [OF q(2,3), of "q - a"] by simp
  qed
  have db: "(n - (7 * b - 6)) div 7 = q - b"
  proof -
    have "n - (7 * b - 6) = 7 * (q - b) + f" using q(1) by simp
    then show ?thesis using div7_known [OF q(2,3), of "q - b"] by simp
  qed
  have ta: "(7 * q - 3 - A) div 7 = q - a"
  proof -
    have "7 * q - 3 - A = 7 * (q - a) + (7 * a - 3 - A)" by simp
    moreover have "0 \<le> 7 * a - 3 - A" "7 * a - 3 - A \<le> 6" using a by linarith+
    ultimately show ?thesis using div7_known [of "7 * a - 3 - A" "q - a"] by simp
  qed
  have tb: "(7 * q - 3 - B) div 7 = q - b"
  proof -
    have "7 * q - 3 - B = 7 * (q - b) + (7 * b - 3 - B)" by simp
    moreover have "0 \<le> 7 * b - 3 - B" "7 * b - 3 - B \<le> 6" using b by linarith+
    ultimately show ?thesis using div7_known [of "7 * b - 3 - B" "q - b"] by simp
  qed
  have tc: "(7 * q - 3 - C) div 7 = q - c"
  proof -
    have "7 * q - 3 - C = 7 * (q - c) + (7 * c - 3 - C)" by simp
    moreover have "0 \<le> 7 * c - 3 - C" "7 * c - 3 - C \<le> 6" using c by linarith+
    ultimately show ?thesis using div7_known [of "7 * c - 3 - C" "q - c"] by simp
  qed
  have py: "iso_week dt =
      (if q - b < 0 then q - a else if q - b \<ge> 52 \<and> n \<ge> 7 * c - 6 then 0 else q - b) + 1"
    unfolding dt iso_week_def Let_def prod.case n_def [symmetric] a(1) b(1) c(1) da db ..
  have iso: "iso_week_8601 dt =
      (if 7 * q - 3 < B then q - a else if C \<le> 7 * q - 3 then q - c else q - b) + 1"
    unfolding dt iso_week_8601_def Let_def prod.case n_def [symmetric] q(4)
      A_def [symmetric] B_def [symmetric] C_def [symmetric]
    by (simp add: ta tb tc A_def [symmetric] B_def [symmetric] C_def [symmetric])
  have c1: "7 * q - 3 < B \<longleftrightarrow> q - b < 0" using b by linarith
  have c2: "C \<le> 7 * q - 3 \<longleftrightarrow> 0 \<le> q - c" using c by linarith
  have c3: "n \<ge> 7 * c - 6 \<longleftrightarrow> 0 \<le> q - c" using q by linarith
  have qc: "q \<le> c" using q n c by linarith
  have cb: "52 \<le> c - b" "c - b \<le> 53" using b c lenB by linarith+
  have ba: "52 \<le> b - a" "b - a \<le> 53" using a b lenA by linarith+
  have qb: "b - 1 \<le> q" using q n b by linarith
  consider (before) "q - b < 0" | (after) "0 \<le> q - b" "0 \<le> q - c"
    | (inside) "0 \<le> q - b" "q - c < 0"
    by linarith
  then show ?thesis
  proof cases
    case before
    then have "q = b - 1" using qb by linarith
    then show ?thesis unfolding py iso c1 using before ba by simp
  next
    case after
    then have "q = c" using qc by linarith
    then show ?thesis unfolding py iso c1 c2 c3 using after cb by simp
  next
    case inside
    then show ?thesis unfolding py iso c1 c2 c3 using cb by simp
  qed
qed

section \<open>Properties of the week range and of the week of a date string\<close>

text \<open>The years of the day numbers: New Year's Days grow with the year.\<close>

lemma new_year_mono:
  assumes "y \<le> z"
  shows "new_year y \<le> new_year z"
  using assms
proof (induction z rule: int_ge_induct)
  case base
  show ?case by simp
next
  case (step i)
  have "new_year i \<le> new_year (i + 1)"
    using year_length [of i] by (simp split: if_splits)
  then show ?case using step by simp
qed

lemma year_from_1000:
  assumes "1 \<le> n" and "n \<le> MAXORDINAL"
  shows "1000 \<le> fst (ord2ymd n) \<longleftrightarrow> ymd2ord (1000, 1, 1) \<le> n"
proof -
  obtain y m d where dt: "ord2ymd n = (y, m, d)" by (cases "ord2ymd n")
  from ord2ymd_correct [OF assms(1)] assms(2)
  have ord: "ymd2ord (y, m, d) = n" and chk: "check_date_fields (y, m, d)"
    by (simp_all add: check_date_fields_valid dt)
  have lo: "new_year y \<le> n" and hi: "n < new_year (y + 1)"
    using date_in_year [OF chk] ord by simp_all
  show ?thesis
  proof
    assume "1000 \<le> fst (ord2ymd n)"
    then have "new_year 1000 \<le> new_year y" by (intro new_year_mono) (simp add: dt)
    then show "ymd2ord (1000, 1, 1) \<le> n" using lo by (simp add: new_year_def)
  next
    assume a: "ymd2ord (1000, 1, 1) \<le> n"
    show "1000 \<le> fst (ord2ymd n)"
    proof (rule ccontr)
      assume "\<not> 1000 \<le> fst (ord2ymd n)"
      then have "new_year (y + 1) \<le> new_year 1000" by (intro new_year_mono) (simp add: dt)
      then show False using hi a by (simp add: new_year_def)
    qed
  qed
qed

lemma renders_ord:
  assumes "1 \<le> n" and "n \<le> MAXORDINAL" and "padded \<or> ymd2ord (1000, 1, 1) \<le> n"
  shows "renders_day padded (strftime padded (ord2ymd n)) n"
proof -
  from ord2ymd_correct [OF assms(1)] assms(2)
  have ord: "ymd2ord (ord2ymd n) = n" and chk: "check_date_fields (ord2ymd n)"
    by (simp_all add: check_date_fields_valid)
  have "padded \<or> 1000 \<le> fst (ord2ymd n)"
    using assms(3) year_from_1000 [OF assms(1,2)] by blast
  from strptime_strftime [OF chk this] ord show ?thesis
    by (simp add: renders_day_def)
qed

lemma short_year_unread:
  assumes "1 \<le> n" and "n < ymd2ord (1000, 1, 1)"
  shows "strptime (strftime False (ord2ymd n)) = None"
proof -
  have "ymd2ord (1000, 1, 1) \<le> MAXORDINAL" by code_simp
  then have le: "n \<le> MAXORDINAL" using assms(2) by simp
  from ord2ymd_correct [OF assms(1)] le
  have chk: "check_date_fields (ord2ymd n)"
    by (simp_all add: check_date_fields_valid)
  have "fst (ord2ymd n) < 1000"
    using assms(2) year_from_1000 [OF assms(1) le] by simp
  then show ?thesis by (rule strptime_strftime_short_year [OF chk])
qed

text \<open>
  C8, as the code has it. Take a start date that parses to the day number \<open>n\<close> and an
  offset \<open>k\<close> of at least 0. As long as \<open>n + 7 k + 4\<close> does not pass the last day Python
  can represent (31.12.9999), the result is the pair of what \<^verbatim>\<open>strftime\<close> prints for
  the days \<open>n + 7 k\<close> and \<open>n + 7 k + 4\<close>. These are the two dates in the format
  \<^verbatim>\<open>dd.mm.yyyy\<close>, which read back as the same days, where the platform pads the year
  or the range starts in the year 1000 or later; one more week then moves both by 7
  days. Where the platform does not pad the year, a range that ends before the year 1000
  is printed with a shorter year, and neither string reads back. Beyond 31.12.9999 the
  function raises OverflowError. The example of the specification holds on every
  platform.
\<close>

theorem week_range_correct:
  assumes "strptime start_date = Some dt" and "0 \<le> k"
  shows "(ymd2ord dt + 7 * k + 4 \<le> MAXORDINAL \<longrightarrow>
           calculate_week_range padded start_date k
             = Inr (strftime padded (ord2ymd (ymd2ord dt + 7 * k)),
                    strftime padded (ord2ymd (ymd2ord dt + 7 * k + 4))))
       \<and> (ymd2ord dt + 7 * k + 4 \<le> MAXORDINAL
            \<and> (padded \<or> ymd2ord (1000, 1, 1) \<le> ymd2ord dt + 7 * k) \<longrightarrow>
           (\<exists>s e. calculate_week_range padded start_date k = Inr (s, e)
              \<and> renders_day padded s (ymd2ord dt + 7 * k)
              \<and> renders_day padded e (ymd2ord dt + 7 * k + 4)))
       \<and> (ymd2ord dt + 7 * (k + 1) + 4 \<le> MAXORDINAL
            \<and> (padded \<or> ymd2ord (1000, 1, 1) \<le> ymd2ord dt + 7 * k) \<longrightarrow>
           (\<exists>s e s' e' n. calculate_week_range padded start_date k = Inr (s, e)
              \<and> calculate_week_range padded start_date (k + 1) = Inr (s', e')
              \<and> renders_day padded s n \<and> renders_day padded s' (n + 7)
              \<and> renders_day padded e (n + 4) \<and> renders_day padded e' (n + 4 + 7)))
       \<and> (\<not> padded \<and> ymd2ord dt + 7 * k + 4 < ymd2ord (1000, 1, 1) \<longrightarrow>
           (\<exists>s e. calculate_week_range padded start_date k = Inr (s, e)
              \<and> strptime s = None \<and> strptime e = None))
       \<and> (MAXORDINAL < ymd2ord dt + 7 * k + 4 \<longrightarrow>
           calculate_week_range padded start_date k = Inl OverflowError)
       \<and> calculate_week_range padded ''01.04.2024'' 0 = Inr (''01.04.2024'', ''05.04.2024'')
       \<and> calculate_week_range padded ''01.04.2024'' 1 = Inr (''08.04.2024'', ''12.04.2024'')"
proof -
  have pos: "1 \<le> ymd2ord dt" by (rule ymd2ord_positive [OF strptime_Some_valid [OF assms(1)]])
  have a: "\<exists>s e. calculate_week_range padded start_date j = Inr (s, e)
              \<and> renders_day padded s (ymd2ord dt + 7 * j)
              \<and> renders_day padded e (ymd2ord dt + 7 * j + 4)"
    if "0 \<le> j" "ymd2ord dt + 7 * j + 4 \<le> MAXORDINAL"
      and "padded \<or> ymd2ord (1000, 1, 1) \<le> ymd2ord dt + 7 * j" for j
  proof -
    have "renders_day padded (strftime padded (ord2ymd (ymd2ord dt + 7 * j))) (ymd2ord dt + 7 * j)"
      using that pos by (intro renders_ord) auto
    moreover have "renders_day padded (strftime padded (ord2ymd (ymd2ord dt + 7 * j + 4)))
        (ymd2ord dt + 7 * j + 4)"
      using that pos by (intro renders_ord) auto
    ultimately show ?thesis
      using calculate_week_range_in_range [OF assms(1) that(1,2)] by simp
  qed
  have b: "\<exists>s e s' e' n. calculate_week_range padded start_date k = Inr (s, e)
              \<and> calculate_week_range padded start_date (k + 1) = Inr (s', e')
              \<and> renders_day padded s n \<and> renders_day padded s' (n + 7)
              \<and> renders_day padded e (n + 4) \<and> renders_day padded e' (n + 4 + 7)"
    if r: "ymd2ord dt + 7 * (k + 1) + 4 \<le> MAXORDINAL"
      and y: "padded \<or> ymd2ord (1000, 1, 1) \<le> ymd2ord dt + 7 * k"
  proof -
    have "ymd2ord dt + 7 * k + 4 \<le> MAXORDINAL" using r by simp
    from a [OF assms(2) this y] obtain s e where
      1: "calculate_week_range padded start_date k = Inr (s, e)"
        "renders_day padded s (ymd2ord dt + 7 * k)"
        "renders_day padded e (ymd2ord dt + 7 * k + 4)"
      by blast
    have "0 \<le> k + 1" using assms(2) by simp
    moreover have "padded \<or> ymd2ord (1000, 1, 1) \<le> ymd2ord dt + 7 * (k + 1)"
      using y by auto
    ultimately obtain s' e' where
      2: "calculate_week_range padded start_date (k + 1) = Inr (s', e')"
        "renders_day padded s' (ymd2ord dt + 7 * (k + 1))"
        "renders_day padded e' (ymd2ord dt + 7 * (k + 1) + 4)"
      using a [OF _ r] by blast
    have "renders_day padded s' (ymd2ord dt + 7 * k + 7)"
      "renders_day padded e' (ymd2ord dt + 7 * k + 4 + 7)"
      using 2(2,3) by (simp_all add: algebra_simps)
    then show ?thesis using 1 2(1) by blast
  qed
  have u: "\<exists>s e. calculate_week_range padded start_date k = Inr (s, e)
              \<and> strptime s = None \<and> strptime e = None"
    if "\<not> padded" and r: "ymd2ord dt + 7 * k + 4 < ymd2ord (1000, 1, 1)"
  proof -
    have "ymd2ord (1000, 1, 1) \<le> MAXORDINAL" by code_simp
    then have le: "ymd2ord dt + 7 * k + 4 \<le> MAXORDINAL" using r by simp
    have "strptime (strftime False (ord2ymd (ymd2ord dt + 7 * k))) = None"
      using r pos assms(2) by (intro short_year_unread) simp_all
    moreover have "strptime (strftime False (ord2ymd (ymd2ord dt + 7 * k + 4))) = None"
      using r pos assms(2) by (intro short_year_unread) simp_all
    ultimately show ?thesis
      using calculate_week_range_in_range [OF assms(1,2) le, of padded] that(1) by simp
  qed
  have "calculate_week_range True ''01.04.2024'' 0 = Inr (''01.04.2024'', ''05.04.2024'')"
    and "calculate_week_range False ''01.04.2024'' 0 = Inr (''01.04.2024'', ''05.04.2024'')"
    by code_simp+
  then have c: "calculate_week_range padded ''01.04.2024'' 0
      = Inr (''01.04.2024'', ''05.04.2024'')"
    by (cases padded) simp_all
  have "calculate_week_range True ''01.04.2024'' 1 = Inr (''08.04.2024'', ''12.04.2024'')"
    and "calculate_week_range False ''01.04.2024'' 1 = Inr (''08.04.2024'', ''12.04.2024'')"
    by code_simp+
  then have d: "calculate_week_range padded ''01.04.2024'' 1
      = Inr (''08.04.2024'', ''12.04.2024'')"
    by (cases padded) simp_all
  show ?thesis
    using calculate_week_range_in_range [OF assms(1,2), of padded] a [OF assms(2)] b u c d
      calculate_week_range_overflow [OF assms, of padded]
    by blast
qed

theorem week_range_correct_witness:
  "strptime ''01.04.2024'' = Some (2024, 4, 1)
   \<and> calculate_week_range False ''01.04.2024'' 2 = Inr (''15.04.2024'', ''19.04.2024'')
   \<and> renders_day False ''15.04.2024'' (ymd2ord (2024, 4, 1) + 7 * 2)
   \<and> renders_day False ''19.04.2024'' (ymd2ord (2024, 4, 1) + 7 * 2 + 4)
   \<and> strptime ''29.12.0998'' = Some (998, 12, 29)
   \<and> calculate_week_range True ''29.12.0998'' 1 = Inr (''05.01.0999'', ''09.01.0999'')
   \<and> renders_day True ''05.01.0999'' (ymd2ord (998, 12, 29) + 7 * 1)
   \<and> renders_day True ''09.01.0999'' (ymd2ord (998, 12, 29) + 7 * 1 + 4)
   \<and> calculate_week_range False ''29.12.0998'' 1 = Inr (''05.01.999'', ''09.01.999'')
   \<and> strptime ''05.01.999'' = None \<and> strptime ''09.01.999'' = None"
proof -
  have p: "strptime ''01.04.2024'' = Some (2024, 4, 1)" by code_simp
  have r: "ymd2ord (2024, 4, 1) + 7 * 2 + 4 \<le> MAXORDINAL
      \<and> (False \<or> ymd2ord (1000, 1, 1) \<le> ymd2ord (2024, 4, 1) + 7 * 2)" by code_simp
  have c: "calculate_week_range False ''01.04.2024'' 2 = Inr (''15.04.2024'', ''19.04.2024'')"
    by code_simp
  have k: "(0::int) \<le> 2" by simp
  have p': "strptime ''29.12.0998'' = Some (998, 12, 29)" by code_simp
  have r': "ymd2ord (998, 12, 29) + 7 * 1 + 4 \<le> MAXORDINAL
      \<and> (True \<or> ymd2ord (1000, 1, 1) \<le> ymd2ord (998, 12, 29) + 7 * 1)" by code_simp
  have c': "calculate_week_range True ''29.12.0998'' 1 = Inr (''05.01.0999'', ''09.01.0999'')"
    by code_simp
  have u': "\<not> False \<and> ymd2ord (998, 12, 29) + 7 * 1 + 4 < ymd2ord (1000, 1, 1)" by code_simp
  have d': "calculate_week_range False ''29.12.0998'' 1 = Inr (''05.01.999'', ''09.01.999'')"
    by code_simp
  have k': "(0::int) \<le> 1" by simp
  from week_range_correct [OF p k, of False, THEN conjunct2, THEN conjunct1] r c
  have 1: "renders_day False ''15.04.2024'' (ymd2ord (2024, 4, 1) + 7 * 2)
      \<and> renders_day False ''19.04.2024'' (ymd2ord (2024, 4, 1) + 7 * 2 + 4)"
    by simp
  from week_range_correct [OF p' k', of True, THEN conjunct2, THEN conjunct1] r' c'
  have 2: "renders_day True ''05.01.0999'' (ymd2ord (998, 12, 29) + 7 * 1)
      \<and> renders_day True ''09.01.0999'' (ymd2ord (998, 12, 29) + 7 * 1 + 4)"
    by simp
  from week_range_correct [OF p' k', of False,
      THEN conjunct2, THEN conjunct2, THEN conjunct2, THEN conjunct1] u' d'
  have 3: "strptime ''05.01.999'' = None \<and> strptime ''09.01.999'' = None"
    by simp
  show ?thesis using p c 1 p' c' 2 d' 3 by simp
qed

text \<open>
  C8 as stated fails in two places. At the end of the calendar, the last day of the year
  9999 parses, and adding the four days to it raises. Before the year 1000, where the
  platform prints the year as a plain number, the result is not in the format
  \<^verbatim>\<open>dd.mm.yyyy\<close>: the start date 01.01.0999 parses, and the range is printed with a
  year of three digits, which does not parse.
\<close>

theorem week_range_counterexample:
  "strptime ''31.12.9999'' = Some (9999, 12, 31)
   \<and> calculate_week_range True ''31.12.9999'' 0 = Inl OverflowError
   \<and> calculate_week_range False ''31.12.9999'' 0 = Inl OverflowError
   \<and> strptime ''01.01.0999'' = Some (999, 1, 1)
   \<and> calculate_week_range False ''01.01.0999'' 0 = Inr (''01.01.999'', ''05.01.999'')
   \<and> strptime ''01.01.999'' = None \<and> strptime ''05.01.999'' = None"
  by code_simp

text \<open>
  C3. A string that does not parse makes \<open>get_week\<close> log one error and return -1, and
  a row with such a date lies in the bucket with index \<open>-1 - start_week + 1\<close>. A string
  that parses makes \<open>get_week\<close> log nothing and return the ISO week of the date, a
  number from 1 to 53.
\<close>

theorem get_week_parse_or_sentinel:
  "(strptime s = None \<longrightarrow> get_week s = (-1, [LogError s]))
   \<and> (\<forall>dt. strptime s = Some dt \<longrightarrow>
         get_week s = (iso_week_8601 dt, []) \<and> 1 \<le> iso_week_8601 dt \<and> iso_week_8601 dt \<le> 53)
   \<and> (\<forall>cfg rows wd lg r.
         initialize_weeks_data cfg rows = Inr (wd, lg) \<longrightarrow> r \<in> set rows
         \<longrightarrow> strptime (Datum r) = None
         \<longrightarrow> row_entry cfg r \<in> set (bucket wd (-1 - start_week_of rows + 1)))"
proof -
  have a: "get_week s = (iso_week_8601 dt, []) \<and> 1 \<le> iso_week_8601 dt \<and> iso_week_8601 dt \<le> 53"
    if "strptime s = Some dt" for dt
    using iso_week_refines [OF strptime_Some_valid [OF that]] get_week_Some [OF that] by simp
  have b: "row_entry cfg r \<in> set (bucket wd (-1 - start_week_of rows + 1))"
    if "initialize_weeks_data cfg rows = Inr (wd, lg)" "r \<in> set rows" "strptime (Datum r) = None"
    for cfg rows wd lg r
    using row_in_own_bucket [OF that(1,2)] get_week_None [OF that(3)]
    by (simp add: relative_week_def)
  show ?thesis using a b get_week_None [of s] by blast
qed

theorem get_week_parse_or_sentinel_witness:
  "strptime ''31.04.2024'' = None
   \<and> get_week ''31.04.2024'' = (-1, [LogError ''31.04.2024''])
   \<and> get_week ''01.04.2024'' = (14, [])
   \<and> initialize_weeks_data (mk_config [''MONTAG''] [])
        [mk_row ''01.04.2024'' ''Montag'' ''Planung'' None,
         mk_row ''31.04.2024'' ''Dienstag'' ''Planung'' None]
      = Inr ([(1, [(''MONTAG'', mk_data ''TAETIGKEIT_UNBEKANNT'' [])]),
              (-14, [(''DIENSTAG'', mk_data ''TAETIGKEIT_UNBEKANNT'' []),
                     (''MONTAG'', mk_data [] [])])],
             [LogError ''31.04.2024'', LogWarning ''MONTAG'' (-14)])"
proof -
  have n: "strptime ''31.04.2024'' = None" by code_simp
  have g: "get_week ''01.04.2024'' = (14, [])" by code_simp
  have i: "initialize_weeks_data (mk_config [''MONTAG''] [])
        [mk_row ''01.04.2024'' ''Montag'' ''Planung'' None,
         mk_row ''31.04.2024'' ''Dienstag'' ''Planung'' None]
      = Inr ([(1, [(''MONTAG'', mk_data ''TAETIGKEIT_UNBEKANNT'' [])]),
              (-14, [(''DIENSTAG'', mk_data ''TAETIGKEIT_UNBEKANNT'' []),
                     (''MONTAG'', mk_data [] [])])],
             [LogError ''31.04.2024'', LogWarning ''MONTAG'' (-14)])"
    by code_simp
  show ?thesis
    using n g i get_week_parse_or_sentinel [of "''31.04.2024''", THEN conjunct1] by simp
qed

end
